theory Spec2Isabelle
  imports Main "HOL-Library.Word" "HOL-Library.AList" "HOL-Library.Sublist"
begin

section \<open>Paths: the functions of Go's path/filepath the services call (Unix)\<close>

text \<open>
  The services import \<^verbatim>\<open>path/filepath\<close> and \<^verbatim>\<open>strings\<close> from Go's standard library.
  Their Unix behaviour is written out here: a path is a byte string, the separator is
  \<^verbatim>\<open>/\<close>, there is no volume name.
\<close>

definition Separator :: char where
  "Separator = CHR ''/''"

text \<open>\<^verbatim>\<open>strings.HasPrefix(s, pre)\<close>.\<close>

definition HasPrefix :: "string \<Rightarrow> string \<Rightarrow> bool" where
  "HasPrefix s pre = prefix pre s"

text \<open>\<^verbatim>\<open>strings.HasSuffix(s, suf)\<close>: \<open>suf\<close> read backwards starts \<open>s\<close> read backwards.\<close>

definition HasSuffix :: "string \<Rightarrow> string \<Rightarrow> bool" where
  "HasSuffix s suf = prefix (rev suf) (rev s)"

text \<open>\<^verbatim>\<open>strings.Split(s, "/")\<close>: the elements between separators, empty ones kept.\<close>

fun splitSep :: "string \<Rightarrow> string list" where
  "splitSep [] = [[]]"
| "splitSep (c # cs) =
     (if c = CHR ''/'' then [] # splitSep cs
      else (case splitSep cs of [] \<Rightarrow> [[c]] | w # ws \<Rightarrow> (c # w) # ws))"

text \<open>\<^verbatim>\<open>strings.Join(elems, "/")\<close>.\<close>

fun joinSep :: "string list \<Rightarrow> string" where
  "joinSep [] = []"
| "joinSep [w] = w"
| "joinSep (w # ws) = w @ CHR ''/'' # joinSep ws"

text \<open>
  \<^verbatim>\<open>filepath.Clean\<close>, element by element. The stack holds the elements kept so far, last
  one first: an empty element and \<^verbatim>\<open>.\<close> are dropped; \<^verbatim>\<open>..\<close> removes the element before it,
  is dropped at the top of a rooted path, and is kept at the start of a relative one.
\<close>

fun cleanElem :: "bool \<Rightarrow> string \<Rightarrow> string list \<Rightarrow> string list" where
  "cleanElem rooted el stack =
     (if el = [] \<or> el = ''.'' then stack
      else if el = ''..'' then
        (case stack of
           [] \<Rightarrow> if rooted then [] else [''..'']
         | kept # rest \<Rightarrow> if kept \<noteq> ''..'' then rest else ''..'' # stack)
      else el # stack)"

definition Clean :: "string \<Rightarrow> string" where
  "Clean path =
     (if path = [] then ''.''
      else
        let rooted = (hd path = CHR ''/'');
            body = joinSep (rev (fold (cleanElem rooted) (splitSep path) []))
        in if rooted then CHR ''/'' # body
           else if body = [] then ''.'' else body)"

text \<open>\<^verbatim>\<open>filepath.Dir\<close>: everything up to the last separator, cleaned.\<close>

definition Dir :: "string \<Rightarrow> string" where
  "Dir path = Clean (rev (dropWhile (\<lambda>c. c \<noteq> CHR ''/'') (rev path)))"

text \<open>\<^verbatim>\<open>filepath.Base\<close>: the last element, trailing separators removed first.\<close>

definition Base :: "string \<Rightarrow> string" where
  "Base path =
     (if path = [] then ''.''
      else
        let stripped = rev (dropWhile (\<lambda>c. c = CHR ''/'') (rev path));
            last_el = rev (takeWhile (\<lambda>c. c \<noteq> CHR ''/'') (rev stripped))
        in if last_el = [] then ''/'' else last_el)"

text \<open>\<^verbatim>\<open>filepath.Join(a, b)\<close>: joined from the first non-empty element on, then cleaned.\<close>

definition Join :: "string \<Rightarrow> string \<Rightarrow> string" where
  "Join a b =
     (if a \<noteq> [] then Clean (a @ CHR ''/'' # b)
      else if b \<noteq> [] then Clean b
      else [])"

text \<open>
  Errors of the operating system and of the services, as values. \<^verbatim>\<open>SkipDir\<close> is the
  sentinel a walk callback returns to leave a directory; \<^verbatim>\<open>Canceled\<close> is \<^verbatim>\<open>ctx.Err()\<close>;
  \<^verbatim>\<open>ErrMsg\<close> is an error made by \<^verbatim>\<open>fmt.Errorf\<close>.
\<close>

datatype error =
    ErrPermission
  | ErrNotExist
  | ErrExist
  | ErrCrossDevice
  | ErrIO
  | SkipDir
  | Canceled
  | ErrMsg string

text \<open>
  \<^verbatim>\<open>filepath.Abs\<close>: an absolute path is cleaned; a relative one is joined to the working
  directory, and the call fails when the working directory cannot be read. The working
  directory is a parameter (\<open>Inl\<close> is the error of \<^verbatim>\<open>os.Getwd\<close>).
\<close>

definition Abs :: "error + string \<Rightarrow> string \<Rightarrow> error + string" where
  "Abs wd path =
     (if HasPrefix path ''/'' then Inr (Clean path)
      else (case wd of Inl e \<Rightarrow> Inl e | Inr w \<Rightarrow> Inr (Join w path)))"

subsection \<open>The path helpers of fs\_scanner.go and cache.go\<close>

definition isHidden :: "string \<Rightarrow> bool" where
  "isHidden name = HasPrefix name ''.''"

definition isWithin :: "string \<Rightarrow> string \<Rightarrow> bool" where
  "isWithin root path =
     (if root = path then True
      else let rootWithSep = root @ [Separator] in HasPrefix path rootWithSep)"

definition hasPathPrefix :: "string \<Rightarrow> string \<Rightarrow> bool" where
  "hasPathPrefix root path =
     (if root = path then True
      else let rootWithSep = root @ [Separator] in HasPrefix path rootWithSep)"

definition cleanPath :: "error + string \<Rightarrow> string \<Rightarrow> string" where
  "cleanPath wd path =
     (if path = [] then path
      else
        let clean = Clean path
        in (case Abs wd clean of Inl err \<Rightarrow> clean | Inr absolute \<Rightarrow> absolute))"

definition parentPath :: "string \<Rightarrow> string \<Rightarrow> string" where
  "parentPath root path = (if path = root then [] else Dir path)"

text \<open>\<^verbatim>\<open>strings.Count(filepath.Clean(path), "/")\<close>.\<close>

definition depth :: "string \<Rightarrow> nat" where
  "depth path = count_list (Clean path) Separator"

definition depthFrom :: "string \<Rightarrow> string \<Rightarrow> int" where
  "depthFrom root path =
     (let rootDepth = int (depth root); pathDepth = int (depth path)
      in pathDepth - rootDepth)"

fun containsID :: "string list \<Rightarrow> string \<Rightarrow> bool" where
  "containsID [] target = False"
| "containsID (x # ids) target = (if x = target then True else containsID ids target)"

section \<open>The node model (package domain)\<close>

text \<open>
  \<^verbatim>\<open>NodeType\<close> is a Go \<^verbatim>\<open>int\<close> with the constants \<^verbatim>\<open>NodeFile = 0\<close> and \<^verbatim>\<open>NodeDir = 1\<close>; a cache
  file can carry any other number, so the type stays \<open>int\<close>. \<^verbatim>\<open>int64\<close> and \<^verbatim>\<open>int\<close> fields
  are 64-bit words, whose addition wraps as Go's does.
\<close>

type_synonym NodeType = int

definition NodeFile :: NodeType where
  "NodeFile = 0"

definition NodeDir :: NodeType where
  "NodeDir = 1"

text \<open>
  A \<^verbatim>\<open>time.Time\<close> as the scanner uses it: the zero value, or \<^verbatim>\<open>time.Unix(0, ns)\<close>.
  \<^verbatim>\<open>UnixNano\<close> of the zero value is the wrapped product Go computes for year 1.
\<close>

datatype Time = ZeroTime | UnixTime "64 word"

definition UnixNano :: "Time \<Rightarrow> 64 word" where
  "UnixNano t = (case t of ZeroTime \<Rightarrow> - 6795364578871345152 | UnixTime ns \<Rightarrow> ns)"

record Node =
  ID :: string
  Name :: string
  Path :: string
  Type :: NodeType
  SizeBytes :: "64 word"
  AccumBytes :: "64 word"
  ModTime :: Time
  ParentID :: string
  ChildrenIDs :: "string list"
  ChildCount :: "64 word"
  FileCount :: "64 word"
  DirCount :: "64 word"
  Scanned :: bool

text \<open>A Go map is an association list with distinct keys; its order is one iteration order.\<close>

type_synonym NodeIndex = "(string \<times> Node) list"

section \<open>The scanner's state\<close>

record cacheEntry =
  entPath :: string
  entName :: string
  entType :: NodeType
  entModTime :: "64 word"
  entSizeBytes :: "64 word"
  entAccumBytes :: "64 word"
  entFileCount :: "64 word"
  entDirCount :: "64 word"
  entChildCount :: "64 word"
  entChildren :: "string list"
  entParentID :: string

record ScanProgress =
  spPath :: string
  spScanned :: nat
  spCompleted :: bool
  spErrMessage :: string
  spCurrent :: string

text \<open>
  A buffered channel with nobody receiving: nil, open with the messages buffered so far,
  or closed.
\<close>

datatype 'a chan = NilChan | OpenChan "'a list" | ClosedChan "'a list"

record FSScanner =
  cache :: NodeIndex
  scannedDirs :: "(string \<times> bool) list"
  progress :: "ScanProgress chan"
  exclusions :: "string list"
  maxDepth :: int
  root :: string
  cacheEntries :: "(string \<times> cacheEntry) list option"
  cacheLoaded :: bool
  cachePath :: string
  cacheHiddenFlag :: bool

text \<open>
  The loop \<^verbatim>\<open>for key := range m { if isWithin(root, key) { delete(m, key) } }\<close>, which
  \<^verbatim>\<open>Invalidate\<close> runs on both maps and \<^verbatim>\<open>replaceCache\<close> on the cache.
\<close>

definition deleteWithin :: "string \<Rightarrow> (string \<times> 'v) list \<Rightarrow> (string \<times> 'v) list" where
  "deleteWithin rootPath m =
     fold (\<lambda>key acc. if isWithin rootPath key then AList.delete key acc else acc) (map fst m) m"

definition Invalidate :: "error + string \<Rightarrow> string \<Rightarrow> FSScanner \<Rightarrow> FSScanner" where
  "Invalidate wd path scanner =
     (let rootPath = cleanPath wd path
      in scanner\<lparr>cache := deleteWithin rootPath (cache scanner),
                 scannedDirs := deleteWithin rootPath (scannedDirs scanner)\<rparr>)"

definition NewFSScanner :: "string \<Rightarrow> FSScanner" where
  "NewFSScanner cacheFilePath =
     \<lparr>cache = [], scannedDirs = [], progress = NilChan,
      exclusions = [''.git'', ''node_modules'', ''.cache''],
      maxDepth = 0, root = [], cacheEntries = None, cacheLoaded = False,
      cachePath = cacheFilePath, cacheHiddenFlag = False\<rparr>"

definition isExcluded :: "FSScanner \<Rightarrow> string \<Rightarrow> bool" where
  "isExcluded scanner name = (name \<in> set (exclusions scanner))"

definition isCached :: "FSScanner \<Rightarrow> string \<Rightarrow> bool" where
  "isCached scanner rootPath =
     (case map_of (scannedDirs scanner) rootPath of None \<Rightarrow> False | Some b \<Rightarrow> b)"

section \<open>The four aggregation passes\<close>

text \<open>
  \<^verbatim>\<open>applyHierarchy\<close> ranges over the map and, for each node whose parent is in the map,
  appends the node's ID to the parent's children and counts directory children.
\<close>

definition attachToParent :: "string \<Rightarrow> NodeIndex \<Rightarrow> NodeIndex" where
  "attachToParent key nodes =
     (case map_of nodes key of
        None \<Rightarrow> nodes
      | Some node \<Rightarrow>
          if ParentID node = [] then nodes
          else
            (case map_of nodes (ParentID node) of
               None \<Rightarrow> nodes
             | Some parent \<Rightarrow>
                 AList.update (ParentID node)
                   (parent\<lparr>ChildrenIDs := ChildrenIDs parent @ [ID node],
                           ChildCount :=
                             (if Type node = NodeDir then ChildCount parent + 1
                              else ChildCount parent)\<rparr>)
                   nodes))"

definition applyHierarchy :: "NodeIndex \<Rightarrow> NodeIndex" where
  "applyHierarchy nodes = fold attachToParent (map fst nodes) nodes"

text \<open>
  \<^verbatim>\<open>sort.Slice(paths, func(i, j) bool { return depth(paths[i]) > depth(paths[j]) })\<close>:
  the keys by descending depth. The sort keeps the order of keys of equal depth, which is
  one of the results Go's unstable sort can give.
\<close>

definition sortByDepth :: "string list \<Rightarrow> string list" where
  "sortByDepth paths = sort_key (\<lambda>p. - int (depth p)) paths"

text \<open>
  The inner loop of the last three passes: over the node's children that are in the map,
  the sum of what each child contributes.
  \<^verbatim>\<open>for _, childID := range node.ChildrenIDs { if child, ok := nodes[childID]; ok { total += ... } }\<close>
\<close>

definition sumOverChildren :: "(Node \<Rightarrow> 64 word) \<Rightarrow> NodeIndex \<Rightarrow> Node \<Rightarrow> 64 word" where
  "sumOverChildren contribution nodes node =
     fold (\<lambda>childID total.
             case map_of nodes childID of
               Some child \<Rightarrow> total + contribution child
             | None \<Rightarrow> total)
          (ChildrenIDs node) 0"

definition accumulateNode :: "string \<Rightarrow> NodeIndex \<Rightarrow> NodeIndex" where
  "accumulateNode path nodes =
     (case map_of nodes path of
        None \<Rightarrow> nodes
      | Some node \<Rightarrow>
          if Type node = NodeFile then
            (if AccumBytes node = 0
             then AList.update path (node\<lparr>AccumBytes := SizeBytes node\<rparr>) nodes
             else nodes)
          else
            let total = sumOverChildren AccumBytes nodes node
            in AList.update path (node\<lparr>AccumBytes := total\<rparr>) nodes)"

definition applyAccumulation :: "NodeIndex \<Rightarrow> NodeIndex" where
  "applyAccumulation nodes = fold accumulateNode (sortByDepth (map fst nodes)) nodes"

definition countFilesNode :: "string \<Rightarrow> NodeIndex \<Rightarrow> NodeIndex" where
  "countFilesNode path nodes =
     (case map_of nodes path of
        None \<Rightarrow> nodes
      | Some node \<Rightarrow>
          if Type node = NodeFile then AList.update path (node\<lparr>FileCount := 1\<rparr>) nodes
          else
            let count = sumOverChildren FileCount nodes node
            in AList.update path (node\<lparr>FileCount := count\<rparr>) nodes)"

definition applyFileCounts :: "NodeIndex \<Rightarrow> NodeIndex" where
  "applyFileCounts nodes = fold countFilesNode (sortByDepth (map fst nodes)) nodes"

text \<open>A directory child contributes itself and the directories below it.\<close>

definition dirContribution :: "Node \<Rightarrow> 64 word" where
  "dirContribution child = (if Type child = NodeDir then 1 else 0) + DirCount child"

definition countDirsNode :: "string \<Rightarrow> NodeIndex \<Rightarrow> NodeIndex" where
  "countDirsNode path nodes =
     (case map_of nodes path of
        None \<Rightarrow> nodes
      | Some node \<Rightarrow>
          if Type node = NodeFile then AList.update path (node\<lparr>DirCount := 0\<rparr>) nodes
          else
            let count = sumOverChildren dirContribution nodes node
            in AList.update path (node\<lparr>DirCount := count\<rparr>) nodes)"

definition applyDirCounts :: "NodeIndex \<Rightarrow> NodeIndex" where
  "applyDirCounts nodes = fold countDirsNode (sortByDepth (map fst nodes)) nodes"

section \<open>The cache store (cache.go)\<close>

record cacheFile =
  cfVersion :: int
  cfShowHidden :: bool
  cfEntries :: "(string \<times> cacheEntry) list option"

definition cacheVersion :: int where
  "cacheVersion = 1"

text \<open>
  What \<^verbatim>\<open>loadCache\<close> finds at the cache path: \<^verbatim>\<open>os.Stat\<close> fails, the file is larger than
  \<^verbatim>\<open>maxCacheBytes\<close>, \<^verbatim>\<open>os.ReadFile\<close> fails, the bytes are not the JSON of a \<^verbatim>\<open>cacheFile\<close>,
  or they are.
\<close>

datatype CacheFileState =
    StatFails error
  | TooLarge
  | ReadFails error
  | BadJSON
  | Parsed cacheFile

text \<open>
  The world outside the scanner: the working directory, what \<^verbatim>\<open>os.Lstat\<close> and the
  directory reads of a walk find under a path, the modification time \<^verbatim>\<open>os.Stat\<close> reports
  for a path, the cache file, and whether \<^verbatim>\<open>saveCache\<close> gets its file written (the JSON
  fits \<^verbatim>\<open>maxCacheBytes\<close> and the write succeeds).
\<close>

datatype FsEntry =
    FsFile string "error + 64 word"
  | FsDir string "error + 64 word" "FsEntry list" "error option"

text \<open>
  \<^verbatim>\<open>FsFile name st\<close>: a non-directory entry; \<open>st\<close> is what \<^verbatim>\<open>os.Lstat\<close> gives the worker,
  the size or an error. \<^verbatim>\<open>FsDir name mt entries err\<close>: a directory; \<open>mt\<close> is what
  \<^verbatim>\<open>DirEntry.Info()\<close> gives, the modification time in nanoseconds or an error;
  \<open>entries\<close> are the entries \<^verbatim>\<open>os.ReadDir\<close> returns, in its order, and \<open>err\<close> its error.
\<close>

fun entryName :: "FsEntry \<Rightarrow> string" where
  "entryName (FsFile name st) = name"
| "entryName (FsDir name mt entries err) = name"

fun entryIsDir :: "FsEntry \<Rightarrow> bool" where
  "entryIsDir (FsFile name st) = False"
| "entryIsDir (FsDir name mt entries err) = True"

record World =
  workDir :: "error + string"
  lstatTree :: "string \<Rightarrow> error + FsEntry"
  statModTime :: "string \<Rightarrow> error + 64 word"
  cacheFileOnDisk :: CacheFileState
  cacheWritable :: bool

definition loadCache :: "World \<Rightarrow> FSScanner \<Rightarrow> error option \<times> FSScanner" where
  "loadCache world scanner =
     (if cacheLoaded scanner \<or> cachePath scanner = [] then
        (None, scanner\<lparr>cacheLoaded := True\<rparr>)
      else
        (case cacheFileOnDisk world of
           StatFails err \<Rightarrow>
             if err = ErrNotExist then (None, scanner\<lparr>cacheLoaded := True\<rparr>)
             else (Some err, scanner)
         | TooLarge \<Rightarrow> (Some (ErrMsg ''cache too large''), scanner)
         | ReadFails err \<Rightarrow> (Some err, scanner)
         | BadJSON \<Rightarrow> (Some (ErrMsg ''invalid character''), scanner)
         | Parsed cached \<Rightarrow>
             if cfVersion cached \<noteq> cacheVersion then (None, scanner)
             else
               (None, scanner\<lparr>cacheEntries := cfEntries cached,
                               cacheHiddenFlag := cfShowHidden cached,
                               cacheLoaded := True\<rparr>)))"

definition entryOfNode :: "Node \<Rightarrow> cacheEntry" where
  "entryOfNode node =
     \<lparr>entPath = Path node, entName = Name node, entType = Type node,
      entModTime = UnixNano (ModTime node), entSizeBytes = SizeBytes node,
      entAccumBytes = AccumBytes node, entFileCount = FileCount node,
      entDirCount = DirCount node, entChildCount = ChildCount node,
      entChildren = ChildrenIDs node, entParentID = ParentID node\<rparr>"

definition saveCache :: "NodeIndex \<Rightarrow> bool \<Rightarrow> FSScanner \<Rightarrow> World \<Rightarrow> World" where
  "saveCache nodes showHidden scanner world =
     (if cachePath scanner = [] then world
      else
        let entries = map (\<lambda>(path, node). (path, entryOfNode node)) nodes;
            file = \<lparr>cfVersion = cacheVersion, cfShowHidden = showHidden,
                    cfEntries = Some entries\<rparr>
        in if \<not> cacheWritable world then world
           else world\<lparr>cacheFileOnDisk := Parsed file\<rparr>)"

definition cacheShowHidden :: "FSScanner \<Rightarrow> bool \<Rightarrow> bool" where
  "cacheShowHidden scanner showHidden =
     (if cacheEntries scanner = None then False
      else cacheHiddenFlag scanner = showHidden)"

definition canReuseRoot :: "World \<Rightarrow> FSScanner \<Rightarrow> string \<Rightarrow> bool \<Rightarrow> bool" where
  "canReuseRoot world scanner path showHidden =
     (case cacheEntries scanner of
        None \<Rightarrow> False
      | Some entries \<Rightarrow>
          (case map_of entries path of
             None \<Rightarrow> False
           | Some entry \<Rightarrow>
               if entType entry \<noteq> NodeDir then False
               else if \<not> cacheShowHidden scanner showHidden then False
               else
                 (case statModTime world path of
                    Inl err \<Rightarrow> False
                  | Inr mt \<Rightarrow> entModTime entry = mt)))"

definition canReuseDir :: "FSScanner \<Rightarrow> string \<Rightarrow> error + 64 word \<Rightarrow> bool \<Rightarrow> bool" where
  "canReuseDir scanner path info showHidden =
     (case cacheEntries scanner of
        None \<Rightarrow> False
      | Some entries \<Rightarrow>
          if \<not> cacheShowHidden scanner showHidden then False
          else
            (case info of
               Inl err \<Rightarrow> False
             | Inr mt \<Rightarrow>
                 (case map_of entries path of
                    None \<Rightarrow> False
                  | Some cached \<Rightarrow>
                      if entType cached \<noteq> NodeDir then False
                      else entModTime cached = mt)))"

definition timeFrom :: "64 word \<Rightarrow> Time" where
  "timeFrom v = (if v = 0 then ZeroTime else UnixTime v)"

definition toNode :: "cacheEntry \<Rightarrow> Node" where
  "toNode entry =
     \<lparr>ID = entPath entry, Name = entName entry, Path = entPath entry,
      Type = entType entry, SizeBytes = entSizeBytes entry,
      AccumBytes = entAccumBytes entry, ModTime = timeFrom (entModTime entry),
      ParentID = entParentID entry, ChildrenIDs = entChildren entry,
      ChildCount = entChildCount entry, FileCount = entFileCount entry,
      DirCount = entDirCount entry, Scanned = (entType entry = NodeDir)\<rparr>"

definition mergeEntries :: "string \<Rightarrow> (string \<times> cacheEntry) list \<Rightarrow> NodeIndex \<Rightarrow> NodeIndex" where
  "mergeEntries rootPath entries nodes =
     fold (\<lambda>(path, entry) acc.
             if hasPathPrefix rootPath path then AList.update path (toNode entry) acc
             else acc)
          entries nodes"

definition cachedTree :: "FSScanner \<Rightarrow> string \<Rightarrow> NodeIndex" where
  "cachedTree scanner rootPath =
     (case cacheEntries scanner of
        None \<Rightarrow> []
      | Some entries \<Rightarrow> mergeEntries rootPath entries [])"

definition mergeCachedSubtree :: "FSScanner \<Rightarrow> string \<Rightarrow> NodeIndex \<Rightarrow> NodeIndex" where
  "mergeCachedSubtree scanner rootPath nodes =
     (case cacheEntries scanner of
        None \<Rightarrow> nodes
      | Some entries \<Rightarrow> mergeEntries rootPath entries nodes)"

definition replaceCache :: "string \<Rightarrow> NodeIndex \<Rightarrow> FSScanner \<Rightarrow> FSScanner" where
  "replaceCache rootPath nodes scanner =
     (let kept = deleteWithin rootPath (cache scanner);
          stored = fold (\<lambda>(key, node) acc. AList.update key node acc) nodes kept;
          dirs = fold (\<lambda>(key, node) acc.
                         if Type node = NodeDir then AList.update key True acc else acc)
                      nodes (scannedDirs scanner);
          parent = Dir rootPath;
          linked =
            (if parent \<noteq> rootPath then
               (case map_of stored parent of
                  Some parentNode \<Rightarrow>
                    if \<not> containsID (ChildrenIDs parentNode) rootPath then
                      AList.update parent
                        (parentNode\<lparr>ChildrenIDs := ChildrenIDs parentNode @ [rootPath],
                                    ChildCount := ChildCount parentNode + 1\<rparr>)
                        stored
                    else stored
                | None \<Rightarrow> stored)
             else stored)
      in scanner\<lparr>cache := linked, scannedDirs := dirs, root := rootPath\<rparr>)"

section \<open>The scan (fs\_scanner.go)\<close>

record ScanRequest =
  RootPath :: string
  ShowHidden :: bool

text \<open>\<^verbatim>\<open>ScanResult\<close> without its \<^verbatim>\<open>Duration\<close>: wall-clock time is not modelled.\<close>

record ScanResult =
  resRootPath :: string

text \<open>
  The context, as the scan polls it. The walk polls \<^verbatim>\<open>ctx.Err()\<close> once per callback and
  each worker once per job. \<open>doneAtVisit = Some k\<close>: the poll of callback number \<open>k\<close>
  (from 0) and every later one finds the context cancelled. \<open>doneAtJob = Some k\<close>:
  the workers stat the first \<open>k\<close> jobs and find the context cancelled from then on.
  \<open>None\<close>: that side never sees a cancellation.
\<close>

record Context =
  doneAtVisit :: "nat option"
  doneAtJob :: "nat option"

definition background :: Context where
  "background = \<lparr>doneAtVisit = None, doneAtJob = None\<rparr>"

definition ctxErr :: "Context \<Rightarrow> nat \<Rightarrow> bool" where
  "ctxErr ctx poll = (case doneAtVisit ctx of None \<Rightarrow> False | Some k \<Rightarrow> k \<le> poll)"

text \<open>\<^verbatim>\<open>err.Error()\<close>.\<close>

fun errText :: "error \<Rightarrow> string" where
  "errText ErrPermission = ''permission denied''"
| "errText ErrNotExist = ''no such file or directory''"
| "errText ErrExist = ''file exists''"
| "errText ErrCrossDevice = ''invalid cross-device link''"
| "errText ErrIO = ''input/output error''"
| "errText SkipDir = ''skip this directory''"
| "errText Canceled = ''context canceled''"
| "errText (ErrMsg msg) = msg"

definition isPermissionErr :: "error \<Rightarrow> bool" where
  "isPermissionErr err = (err = ErrPermission)"

text \<open>
  The progress channel is made with \<^verbatim>\<open>make(chan ScanProgress, 64)\<close>. While a scan runs it
  is open, and the model keeps the messages buffered in it; nothing receives.
  \<^verbatim>\<open>progressNonBlocking\<close> is the \<^verbatim>\<open>select\<close> with a \<^verbatim>\<open>default\<close>: the message is buffered when
  there is room and dropped otherwise.
\<close>

definition progressCapacity :: nat where
  "progressCapacity = 64"

definition progressNonBlocking :: "'a list \<Rightarrow> 'a \<Rightarrow> 'a list" where
  "progressNonBlocking buf msg = (if length buf < progressCapacity then buf @ [msg] else buf)"

record WalkState =
  wsNodes :: NodeIndex
  wsJobs :: "(string \<times> (error + 64 word)) list"
  wsScannedCount :: nat
  wsProgress :: "ScanProgress list"
  wsPolls :: nat

text \<open>
  \<open>wsJobs\<close> are the jobs sent to the workers, each with what \<^verbatim>\<open>os.Lstat\<close> will return for
  its path; \<open>wsPolls\<close> counts the polls of the context.
\<close>

definition skipOrNil :: "FsEntry \<Rightarrow> error option" where
  "skipOrNil entry = (if entryIsDir entry then Some SkipDir else None)"

definition countVisited :: "string \<Rightarrow> WalkState \<Rightarrow> WalkState" where
  "countVisited path st =
     (let n = Suc (wsScannedCount st)
      in st\<lparr>wsScannedCount := n,
            wsProgress :=
              (if n mod 50 = 0 then
                 progressNonBlocking (wsProgress st)
                   \<lparr>spPath = path, spScanned = n, spCompleted = False,
                    spErrMessage = [], spCurrent = path\<rparr>
               else wsProgress st)\<rparr>)"

text \<open>
  The callback \<^verbatim>\<open>Scan\<close> gives to \<^verbatim>\<open>filepath.WalkDir\<close>. Its argument is \<open>Inl err\<close> when the
  walk reports an error (the entry is then not read) and \<open>Inr entry\<close> when \<^verbatim>\<open>err\<close> is nil.
\<close>

definition visit ::
  "Context \<Rightarrow> ScanRequest \<Rightarrow> FSScanner \<Rightarrow> string \<Rightarrow> string \<Rightarrow> error + FsEntry
     \<Rightarrow> WalkState \<Rightarrow> error option \<times> WalkState" where
  "visit ctx req scanner rootPath path arg st =
     (case arg of
        Inl err \<Rightarrow>
          if isPermissionErr err then
            (None, st\<lparr>wsProgress :=
                        progressNonBlocking (wsProgress st)
                          \<lparr>spPath = path, spScanned = wsScannedCount st,
                           spCompleted = False, spErrMessage = errText err,
                           spCurrent = []\<rparr>\<rparr>)
          else (Some err, st)
      | Inr entry \<Rightarrow>
          if ctxErr ctx (wsPolls st) then (Some Canceled, st\<lparr>wsPolls := Suc (wsPolls st)\<rparr>)
          else
            let st = st\<lparr>wsPolls := Suc (wsPolls st)\<rparr>
            in if path \<noteq> rootPath \<and> \<not> ShowHidden req \<and> isHidden (entryName entry)
               then (skipOrNil entry, st)
               else if path \<noteq> rootPath \<and> \<not> ShowHidden req
                       \<and> isExcluded scanner (entryName entry)
               then (skipOrNil entry, st)
               else if path \<noteq> rootPath \<and> maxDepth scanner > 0
                       \<and> depthFrom rootPath path > maxDepth scanner
               then (skipOrNil entry, st)
               else
                 (case entry of
                    FsDir name info entries readErr \<Rightarrow>
                      if canReuseDir scanner path info (ShowHidden req) then
                        (Some SkipDir,
                         st\<lparr>wsNodes := mergeCachedSubtree scanner path (wsNodes st),
                            wsProgress :=
                              progressNonBlocking (wsProgress st)
                                \<lparr>spPath = path, spScanned = wsScannedCount st,
                                 spCompleted = False, spErrMessage = [],
                                 spCurrent = path\<rparr>\<rparr>)
                      else
                        (None,
                         countVisited path
                           (st\<lparr>wsNodes :=
                                 AList.update path
                                   \<lparr>ID = path, Name = name, Path = path, Type = NodeDir,
                                    SizeBytes = 0, AccumBytes = 0, ModTime = ZeroTime,
                                    ParentID = parentPath rootPath path, ChildrenIDs = [],
                                    ChildCount = 0, FileCount = 0, DirCount = 0,
                                    Scanned = True\<rparr>
                                   (wsNodes st)\<rparr>))
                  | FsFile name lstat \<Rightarrow>
                      (None,
                       countVisited path
                         (st\<lparr>wsNodes :=
                               AList.update path
                                 \<lparr>ID = path, Name = name, Path = path, Type = NodeFile,
                                  SizeBytes = 0, AccumBytes = 0, ModTime = ZeroTime,
                                  ParentID = parentPath rootPath path, ChildrenIDs = [],
                                  ChildCount = 0, FileCount = 0, DirCount = 0,
                                  Scanned = False\<rparr>
                                 (wsNodes st),
                             wsJobs := wsJobs st @ [(path, lstat)]\<rparr>))))"

text \<open>
  \<^verbatim>\<open>filepath.WalkDir\<close> of the standard library: the callback is called on an entry; a
  directory whose callback returned nil is read, a read error is reported to the callback
  in a second call, and the entries are walked in order. \<^verbatim>\<open>SkipDir\<close> from a directory's
  callback skips the directory; from an entry's walk it ends the walk of the directory
  that contains it.
\<close>

fun walkDir :: "(string \<Rightarrow> error + FsEntry \<Rightarrow> 's \<Rightarrow> error option \<times> 's)
                 \<Rightarrow> string \<Rightarrow> FsEntry \<Rightarrow> 's \<Rightarrow> error option \<times> 's"
and walkEntries :: "(string \<Rightarrow> error + FsEntry \<Rightarrow> 's \<Rightarrow> error option \<times> 's)
                 \<Rightarrow> string \<Rightarrow> FsEntry list \<Rightarrow> 's \<Rightarrow> error option \<times> 's" where
  "walkDir fn path (FsFile name lstat) st = fn path (Inr (FsFile name lstat)) st"
| "walkDir fn path (FsDir name info entries readErr) st =
     (case fn path (Inr (FsDir name info entries readErr)) st of
        (Some err, st1) \<Rightarrow> (if err = SkipDir then None else Some err, st1)
      | (None, st1) \<Rightarrow>
          (case (case readErr of None \<Rightarrow> (None, st1) | Some err \<Rightarrow> fn path (Inl err) st1) of
             (Some err, st2) \<Rightarrow> (if err = SkipDir then None else Some err, st2)
           | (None, st2) \<Rightarrow> walkEntries fn path entries st2))"
| "walkEntries fn path [] st = (None, st)"
| "walkEntries fn path (d1 # ds) st =
     (case walkDir fn (Join path (entryName d1)) d1 st of
        (Some err, st1) \<Rightarrow> (if err = SkipDir then None else Some err, st1)
      | (None, st1) \<Rightarrow> walkEntries fn path ds st1)"

definition WalkDir :: "(string \<Rightarrow> error + FsEntry \<Rightarrow> 's \<Rightarrow> error option \<times> 's)
                 \<Rightarrow> (string \<Rightarrow> error + FsEntry) \<Rightarrow> string \<Rightarrow> 's \<Rightarrow> error option \<times> 's" where
  "WalkDir fn lstat rootPath st =
     (case (case lstat rootPath of
              Inl err \<Rightarrow> fn rootPath (Inl err) st
            | Inr entry \<Rightarrow> walkDir fn rootPath entry st) of
        (Some err, st1) \<Rightarrow> (if err = SkipDir then None else Some err, st1)
      | (None, st1) \<Rightarrow> (None, st1))"

text \<open>
  The workers and the collector, after the walk: the jobs the workers stat before they
  find the context cancelled, and what the collector does with each result.
\<close>

definition worker :: "Context \<Rightarrow> (string \<times> (error + 64 word)) list
                        \<Rightarrow> (string \<times> (error + 64 word)) list" where
  "worker ctx jobs = (case doneAtJob ctx of None \<Rightarrow> jobs | Some k \<Rightarrow> take k jobs)"

definition collectResult ::
  "string \<Rightarrow> string \<times> (error + 64 word) \<Rightarrow> nat \<times> NodeIndex \<times> ScanProgress list
     \<Rightarrow> nat \<times> NodeIndex \<times> ScanProgress list" where
  "collectResult rootPath result acc =
     (case acc of (processed0, nodes, buf) \<Rightarrow>
        let processed = Suc processed0;
            nodes1 =
              (case map_of nodes (fst result) of
                 Some node \<Rightarrow>
                   (case snd result of
                      Inr sz \<Rightarrow>
                        AList.update (fst result)
                          (node\<lparr>SizeBytes := sz, AccumBytes := sz\<rparr>) nodes
                    | Inl err \<Rightarrow> nodes)
               | None \<Rightarrow> nodes);
            buf1 =
              (if processed mod 200 = 0 then
                 progressNonBlocking buf
                   \<lparr>spPath = rootPath, spScanned = processed, spCompleted = False,
                    spErrMessage = [], spCurrent = fst result\<rparr>
               else buf)
        in (processed, nodes1, buf1))"

text \<open>
  What a call does: it returns, it blocks for ever on a channel send, or it panics on a
  send to a closed channel.
\<close>

datatype 'a outcome = Returns 'a | Blocks | Panics

definition completedMsg :: "string \<Rightarrow> nat \<Rightarrow> ScanProgress" where
  "completedMsg rootPath n =
     \<lparr>spPath = rootPath, spScanned = n, spCompleted = True, spErrMessage = [], spCurrent = []\<rparr>"

definition newRootNode :: "string \<Rightarrow> Node" where
  "newRootNode rootPath =
     (let name = Base rootPath
      in \<lparr>ID = rootPath,
          Name = (if name = ''.'' \<or> name = [Separator] then rootPath else name),
          Path = rootPath, Type = NodeDir, SizeBytes = 0, AccumBytes = 0,
          ModTime = ZeroTime, ParentID = [], ChildrenIDs = [], ChildCount = 0,
          FileCount = 0, DirCount = 0, Scanned = True\<rparr>)"

definition Scan ::
  "Context \<Rightarrow> ScanRequest \<Rightarrow> World \<times> FSScanner
     \<Rightarrow> (ScanResult \<times> error option) outcome \<times> World \<times> FSScanner" where
  "Scan ctx req ws =
     (case ws of (world, scanner0) \<Rightarrow>
      let rootPath = cleanPath (workDir world) (RootPath req);
          result = \<lparr>resRootPath = rootPath\<rparr>
      in
      (case loadCache world scanner0 of (loadErr, scanner1) \<Rightarrow>
       if loadErr \<noteq> None \<and> (case progress scanner1 of ClosedChan buf \<Rightarrow> True | _ \<Rightarrow> False)
       then (Panics, world, scanner1)
       else
         let scanner = scanner1\<lparr>progress := OpenChan []\<rparr>
         in
         if canReuseRoot world scanner rootPath (ShowHidden req) then
           let nodes = cachedTree scanner rootPath;
               scanner2 = replaceCache rootPath nodes scanner;
               buf = progressNonBlocking [] (completedMsg rootPath 0)
           in (Returns (result, None), world, scanner2\<lparr>progress := ClosedChan buf\<rparr>)
         else if isCached scanner rootPath then
           let buf = progressNonBlocking [] (completedMsg rootPath 0)
           in (Returns (result, None), world,
               scanner\<lparr>root := rootPath, progress := ClosedChan buf\<rparr>)
         else
           let st0 = \<lparr>wsNodes = [(rootPath, newRootNode rootPath)], wsJobs = [],
                      wsScannedCount = 0, wsProgress = [], wsPolls = 0\<rparr>
           in
           (case WalkDir (visit ctx req scanner rootPath) (lstatTree world) rootPath st0 of
              (walkErr, st1) \<Rightarrow>
           (case fold (collectResult rootPath) (worker ctx (wsJobs st1))
                   (0, wsNodes st1, wsProgress st1) of
              (processed, nodes1, buf1) \<Rightarrow>
           (case walkErr of
              Some err \<Rightarrow>
                (Returns (result, Some err), world, scanner\<lparr>progress := ClosedChan buf1\<rparr>)
            | None \<Rightarrow>
                let nodes2 =
                      applyDirCounts (applyFileCounts (applyAccumulation (applyHierarchy nodes1)));
                    scanner2 = replaceCache rootPath nodes2 scanner;
                    world2 = saveCache nodes2 (ShowHidden req) scanner2 world
                in if length buf1 < progressCapacity then
                     (Returns (result, None), world2,
                      scanner2\<lparr>progress :=
                        ClosedChan (buf1 @ [completedMsg rootPath (wsScannedCount st1)])\<rparr>)
                   else (Blocks, world2, scanner2\<lparr>progress := OpenChan buf1\<rparr>))))))"

text \<open>\<^verbatim>\<open>Snapshot\<close> hands out a copy of the cache; values are copies already.\<close>

definition Snapshot :: "FSScanner \<Rightarrow> NodeIndex" where
  "Snapshot scanner = cache scanner"

subsection \<open>The stages of a scan that walks\<close>

text \<open>
  Names for the intermediate results of \<open>Scan\<close> on the path that walks the filesystem,
  so that theorems can speak of them: the root, the scanner once the cache file is loaded
  and the progress channel made, the walk, the collector's result, and the index after the
  four passes. \<open>Scan\<close> is defined without them; \<open>Scan_stages\<close> below proves that it
  computes exactly these.
\<close>

definition scanRoot :: "World \<Rightarrow> ScanRequest \<Rightarrow> string" where
  "scanRoot world req = cleanPath (workDir world) (RootPath req)"

definition scannerLoaded :: "World \<Rightarrow> FSScanner \<Rightarrow> FSScanner" where
  "scannerLoaded world scanner0 = (snd (loadCache world scanner0))\<lparr>progress := OpenChan []\<rparr>"

text \<open>The scan is answered by a walk: neither whole-root reuse nor the scanned-directory shortcut.\<close>

definition walksFilesystem :: "World \<Rightarrow> FSScanner \<Rightarrow> ScanRequest \<Rightarrow> bool" where
  "walksFilesystem world scanner0 req =
     (\<not> canReuseRoot world (scannerLoaded world scanner0) (scanRoot world req) (ShowHidden req)
      \<and> \<not> isCached (scannerLoaded world scanner0) (scanRoot world req))"

definition scanWalk :: "Context \<Rightarrow> ScanRequest \<Rightarrow> World \<Rightarrow> FSScanner \<Rightarrow> error option \<times> WalkState" where
  "scanWalk ctx req world scanner0 =
     WalkDir (visit ctx req (scannerLoaded world scanner0) (scanRoot world req))
       (lstatTree world) (scanRoot world req)
       \<lparr>wsNodes = [(scanRoot world req, newRootNode (scanRoot world req))], wsJobs = [],
        wsScannedCount = 0, wsProgress = [], wsPolls = 0\<rparr>"

definition scanCollected ::
  "Context \<Rightarrow> ScanRequest \<Rightarrow> World \<Rightarrow> FSScanner \<Rightarrow> nat \<times> NodeIndex \<times> ScanProgress list" where
  "scanCollected ctx req world scanner0 =
     (let st1 = snd (scanWalk ctx req world scanner0)
      in fold (collectResult (scanRoot world req)) (worker ctx (wsJobs st1))
           (0, wsNodes st1, wsProgress st1))"

definition scanIndex :: "Context \<Rightarrow> ScanRequest \<Rightarrow> World \<Rightarrow> FSScanner \<Rightarrow> NodeIndex" where
  "scanIndex ctx req world scanner0 =
     applyDirCounts (applyFileCounts (applyAccumulation (applyHierarchy
       (fst (snd (scanCollected ctx req world scanner0))))))"

section \<open>The actions engine (fs\_actions.go)\<close>

text \<open>\<^verbatim>\<open>ActionType\<close> is a Go string type with four constants; a request can carry any string.\<close>

type_synonym ActionType = string

definition ActionDelete :: ActionType where
  "ActionDelete = ''delete''"

definition ActionMove :: ActionType where
  "ActionMove = ''move''"

definition ActionCopy :: ActionType where
  "ActionCopy = ''copy''"

definition ActionBackup :: ActionType where
  "ActionBackup = ''backup''"

record ActionRequest =
  reqType :: ActionType
  SourcePaths :: "string list"
  Destination :: string
  SafeMode :: bool
  ConfirmToken :: string

text \<open>\<^verbatim>\<open>ActionResult\<close> without its \<^verbatim>\<open>Duration\<close>.\<close>

record ActionResult =
  resType :: ActionType
  SuccessCount :: nat
  FailureCount :: nat
  Message :: string
  Errors :: "string list"
  Skipped :: nat

record ActionProgress =
  apType :: ActionType
  apCurrent :: string
  apProcessed :: nat
  apTotal :: nat
  apCompleted :: bool
  apErrMessage :: string

record FileInfo =
  IsDir :: bool
  Size :: "64 word"

text \<open>
  The operating system under the actions, over any type \<open>'fs\<close> of filesystem states: the
  calls the engine makes, each from a state to a result and the state after it. The three
  helpers of fs\_actions.go that loop over the live file tree (\<^verbatim>\<open>deleteDirectory\<close>,
  \<^verbatim>\<open>copyPath\<close>, \<^verbatim>\<open>addToArchive\<close>) are parameters as well: they take the state and the
  buffered progress messages and return both. What is proved about the engine holds for
  every operating system and every behaviour of these helpers.
\<close>

record 'fs OS =
  Getwd :: "error + string"
  UserHomeDir :: "error + string"
  Lstat :: "'fs \<Rightarrow> string \<Rightarrow> error + FileInfo"
  Stat :: "'fs \<Rightarrow> string \<Rightarrow> error + FileInfo"
  Remove :: "string \<Rightarrow> 'fs \<Rightarrow> error option \<times> 'fs"
  Rename :: "string \<Rightarrow> string \<Rightarrow> 'fs \<Rightarrow> error option \<times> 'fs"
  MkdirAll :: "string \<Rightarrow> 'fs \<Rightarrow> error option \<times> 'fs"
  Create :: "string \<Rightarrow> 'fs \<Rightarrow> error option \<times> 'fs"
  CloseArchive :: "string \<Rightarrow> 'fs \<Rightarrow> 'fs"
  deleteDirectory ::
    "Context \<Rightarrow> string \<Rightarrow> ActionResult \<Rightarrow> 'fs \<times> ActionProgress list
       \<Rightarrow> error option \<times> ActionResult \<times> 'fs \<times> ActionProgress list"
  copyPath ::
    "Context \<Rightarrow> string \<Rightarrow> string \<Rightarrow> ActionType \<Rightarrow> 'fs \<times> ActionProgress list
       \<Rightarrow> error option \<times> 'fs \<times> ActionProgress list"
  addToArchive ::
    "Context \<Rightarrow> string \<Rightarrow> string \<Rightarrow> string \<Rightarrow> ActionResult \<Rightarrow> 'fs \<times> ActionProgress list
       \<Rightarrow> error option \<times> ActionResult \<times> 'fs \<times> ActionProgress list"

record FSActions =
  actProgress :: "ActionProgress chan"

definition NewFSActions :: FSActions where
  "NewFSActions = \<lparr>actProgress = NilChan\<rparr>"

definition actionProgressNonBlocking :: "ActionProgress list \<Rightarrow> ActionProgress \<Rightarrow> ActionProgress list" where
  "actionProgressNonBlocking buf msg =
     (if length buf < progressCapacity then buf @ [msg] else buf)"

definition emptyResult :: "ActionType \<Rightarrow> ActionResult" where
  "emptyResult t =
     \<lparr>resType = t, SuccessCount = 0, FailureCount = 0, Message = [], Errors = [], Skipped = 0\<rparr>"

definition progressMsg :: "ActionType \<Rightarrow> string \<Rightarrow> nat \<Rightarrow> ActionProgress" where
  "progressMsg t current processed =
     \<lparr>apType = t, apCurrent = current, apProcessed = processed, apTotal = 0,
      apCompleted = False, apErrMessage = []\<rparr>"

fun normalizeLoop :: "error + string \<Rightarrow> string list \<Rightarrow> string list \<Rightarrow> error + string list" where
  "normalizeLoop wd [] result = Inr result"
| "normalizeLoop wd (path # paths) result =
     (if path = [] then normalizeLoop wd paths result
      else
        (case Abs wd path of
           Inl err \<Rightarrow> Inl err
         | Inr absolute \<Rightarrow>
             let clean = Clean absolute
             in if clean \<in> set result then normalizeLoop wd paths result
                else normalizeLoop wd paths (result @ [clean])))"

definition normalizePaths :: "error + string \<Rightarrow> string list \<Rightarrow> error + string list" where
  "normalizePaths wd paths = normalizeLoop wd paths []"

definition isCriticalPath :: "error + string \<Rightarrow> string \<Rightarrow> bool" where
  "isCriticalPath home path0 =
     (let path = Clean path0;
          critical = [''/'', ''/etc'', ''/usr'', ''/var'']
                     @ (case home of Inr h \<Rightarrow> [h] | Inl err \<Rightarrow> [])
      in list_ex (\<lambda>root0. let r = Clean root0 in path = r \<or> HasPrefix path (r @ [Separator]))
           critical)"

definition validateRequest :: "error + string \<Rightarrow> ActionRequest \<Rightarrow> string list \<Rightarrow> error option" where
  "validateRequest home req paths =
     (if paths = [] then Some (ErrMsg ''no sources provided'')
      else if (reqType req = ActionMove \<or> reqType req = ActionCopy \<or> reqType req = ActionBackup)
              \<and> Destination req = []
      then Some (ErrMsg ''destination required'')
      else if SafeMode req \<and> reqType req = ActionDelete then
        (case find (isCriticalPath home) paths of
           Some path \<Rightarrow> Some (ErrMsg (''blocked critical path: '' @ path))
         | None \<Rightarrow> None)
      else None)"

text \<open>
  The loop of \<^verbatim>\<open>requireConfirmation\<close> over the sources of a delete: it stops with an error
  at the first source that is a directory when the token is not \<^verbatim>\<open>confirm-recursive\<close>.
\<close>

fun confirmLoop :: "(string \<Rightarrow> error + FileInfo) \<Rightarrow> string \<Rightarrow> string list \<Rightarrow> error option" where
  "confirmLoop lstat token [] = None"
| "confirmLoop lstat token (path # paths) =
     (case lstat path of
        Inr info \<Rightarrow>
          if IsDir info \<and> token \<noteq> ''confirm-recursive''
          then Some (ErrMsg ''recursive delete requires confirmation'')
          else confirmLoop lstat token paths
      | Inl err \<Rightarrow> confirmLoop lstat token paths)"

definition requireConfirmation ::
  "(string \<Rightarrow> error + FileInfo) \<Rightarrow> ActionRequest \<Rightarrow> string list \<Rightarrow> error option" where
  "requireConfirmation lstat req paths =
     (if reqType req \<noteq> ActionDelete \<and> reqType req \<noteq> ActionMove then None
      else if ConfirmToken req = ''confirm'' then None
      else if reqType req = ActionDelete then
        (case confirmLoop lstat (ConfirmToken req) paths of
           Some err \<Rightarrow> Some err
         | None \<Rightarrow>
             if ConfirmToken req = ''confirm-recursive'' then None
             else Some (ErrMsg ''delete confirmation required''))
      else Some (ErrMsg ''confirmation required''))"

definition exists :: "'fs OS \<Rightarrow> 'fs \<Rightarrow> string \<Rightarrow> bool" where
  "exists os fs path = (case Stat os fs path of Inr info \<Rightarrow> True | Inl err \<Rightarrow> False)"

text \<open>
  \<^verbatim>\<open>deletePaths\<close>: the loop over the sources. The context is polled once per source;
  \<open>i\<close> is the number of the poll.
\<close>

fun deleteLoop ::
  "'fs OS \<Rightarrow> Context \<Rightarrow> nat \<Rightarrow> string list \<Rightarrow> ActionResult \<Rightarrow> 'fs \<times> ActionProgress list
     \<Rightarrow> ActionResult \<times> 'fs \<times> ActionProgress list" where
  "deleteLoop os ctx i [] result (fs, buf) = (result\<lparr>Message := ''delete complete''\<rparr>, fs, buf)"
| "deleteLoop os ctx i (path # paths) result (fs, buf) =
     (if ctxErr ctx i then (result\<lparr>Message := ''delete cancelled''\<rparr>, fs, buf)
      else
        (case Lstat os fs path of
           Inl err \<Rightarrow>
             deleteLoop os ctx (Suc i) paths
               (result\<lparr>FailureCount := Suc (FailureCount result),
                       Errors := Errors result @ [errText err]\<rparr>)
               (fs, buf)
         | Inr info \<Rightarrow>
             if IsDir info then
               (case deleteDirectory os ctx path result (fs, buf) of
                  (Some err, result1, fs1, buf1) \<Rightarrow>
                    deleteLoop os ctx (Suc i) paths
                      (result1\<lparr>Errors := Errors result1 @ [errText err]\<rparr>) (fs1, buf1)
                | (None, result1, fs1, buf1) \<Rightarrow>
                    deleteLoop os ctx (Suc i) paths result1 (fs1, buf1))
             else
               (case Remove os path fs of
                  (Some err, fs1) \<Rightarrow>
                    deleteLoop os ctx (Suc i) paths
                      (result\<lparr>FailureCount := Suc (FailureCount result),
                              Errors := Errors result @ [errText err]\<rparr>)
                      (fs1, buf)
                | (None, fs1) \<Rightarrow>
                    let result1 = result\<lparr>SuccessCount := Suc (SuccessCount result)\<rparr>
                    in deleteLoop os ctx (Suc i) paths result1
                         (fs1,
                          actionProgressNonBlocking buf
                            (progressMsg ActionDelete path
                               (SuccessCount result1 + FailureCount result1))))))"

definition deletePaths ::
  "'fs OS \<Rightarrow> Context \<Rightarrow> string list \<Rightarrow> 'fs \<times> ActionProgress list
     \<Rightarrow> ActionResult \<times> 'fs \<times> ActionProgress list" where
  "deletePaths os ctx paths st = deleteLoop os ctx 0 paths (emptyResult ActionDelete) st"

definition resolveDestination ::
  "'fs OS \<Rightarrow> 'fs \<Rightarrow> string \<Rightarrow> string list \<Rightarrow> error + string \<times> bool" where
  "resolveDestination os fs destination sources =
     (if destination = [] then Inl (ErrMsg ''destination required'')
      else
        (case Abs (Getwd os) destination of
           Inl err \<Rightarrow> Inl err
         | Inr absolute \<Rightarrow>
             (case Stat os fs absolute of
                Inr info \<Rightarrow>
                  if IsDir info then Inr (absolute, True)
                  else if length sources > 1
                  then Inl (ErrMsg ''destination must be a directory for multiple sources'')
                  else Inr (absolute, False)
              | Inl err \<Rightarrow>
                  if length sources > 1
                  then Inl (ErrMsg ''destination must be a directory for multiple sources'')
                  else Inr (absolute, False))))"

fun moveLoop ::
  "'fs OS \<Rightarrow> Context \<Rightarrow> nat \<Rightarrow> string \<Rightarrow> bool \<Rightarrow> string list \<Rightarrow> ActionResult
     \<Rightarrow> 'fs \<times> ActionProgress list \<Rightarrow> ActionResult \<times> 'fs \<times> ActionProgress list" where
  "moveLoop os ctx i resolvedDest destDir [] result (fs, buf) =
     (result\<lparr>Message := ''move complete''\<rparr>, fs, buf)"
| "moveLoop os ctx i resolvedDest destDir (source # sources) result (fs, buf) =
     (if ctxErr ctx i then (result\<lparr>Message := ''move cancelled''\<rparr>, fs, buf)
      else
        let target = (if destDir then Join resolvedDest (Base source) else resolvedDest)
        in if exists os fs target then
             moveLoop os ctx (Suc i) resolvedDest destDir sources
               (result\<lparr>FailureCount := Suc (FailureCount result),
                       Errors := Errors result @ [''target exists: '' @ target]\<rparr>)
               (fs, buf)
           else
             (case Rename os source target fs of
                (Some err, fs1) \<Rightarrow>
                  if err \<noteq> ErrCrossDevice then
                    moveLoop os ctx (Suc i) resolvedDest destDir sources
                      (result\<lparr>FailureCount := Suc (FailureCount result),
                              Errors := Errors result @ [errText err]\<rparr>)
                      (fs1, buf)
                  else
                    (case copyPath os ctx source target ActionMove (fs1, buf) of
                       (Some err2, fs2, buf2) \<Rightarrow>
                         moveLoop os ctx (Suc i) resolvedDest destDir sources
                           (result\<lparr>FailureCount := Suc (FailureCount result),
                                   Errors := Errors result @ [errText err2]\<rparr>)
                           (fs2, buf2)
                     | (None, fs2, buf2) \<Rightarrow>
                         (case deletePaths os ctx [source] (fs2, buf2) of
                            (ignored, fs3, buf3) \<Rightarrow>
                              moveLoop os ctx (Suc i) resolvedDest destDir sources
                                (result\<lparr>SuccessCount := Suc (SuccessCount result)\<rparr>)
                                (fs3, buf3)))
              | (None, fs1) \<Rightarrow>
                  let result1 = result\<lparr>SuccessCount := Suc (SuccessCount result)\<rparr>
                  in moveLoop os ctx (Suc i) resolvedDest destDir sources result1
                       (fs1,
                        actionProgressNonBlocking buf
                          (progressMsg ActionMove target
                             (SuccessCount result1 + FailureCount result1)))))"

definition movePaths ::
  "'fs OS \<Rightarrow> Context \<Rightarrow> string list \<Rightarrow> string \<Rightarrow> 'fs \<times> ActionProgress list
     \<Rightarrow> ActionResult \<times> 'fs \<times> ActionProgress list" where
  "movePaths os ctx paths destination st =
     (case st of (fs, buf) \<Rightarrow>
        (case resolveDestination os fs destination paths of
           Inl err \<Rightarrow>
             ((emptyResult ActionMove)\<lparr>Errors := [errText err], Message := ''move failed''\<rparr>,
              fs, buf)
         | Inr (resolvedDest, destDir) \<Rightarrow>
             moveLoop os ctx 0 resolvedDest destDir paths (emptyResult ActionMove) (fs, buf)))"

fun copyLoop ::
  "'fs OS \<Rightarrow> Context \<Rightarrow> nat \<Rightarrow> string \<Rightarrow> bool \<Rightarrow> string list \<Rightarrow> ActionResult
     \<Rightarrow> 'fs \<times> ActionProgress list \<Rightarrow> ActionResult \<times> 'fs \<times> ActionProgress list" where
  "copyLoop os ctx i resolvedDest destDir [] result (fs, buf) =
     (result\<lparr>Message := ''copy complete''\<rparr>, fs, buf)"
| "copyLoop os ctx i resolvedDest destDir (source # sources) result (fs, buf) =
     (if ctxErr ctx i then (result\<lparr>Message := ''copy cancelled''\<rparr>, fs, buf)
      else
        let target = (if destDir then Join resolvedDest (Base source) else resolvedDest)
        in if exists os fs target then
             copyLoop os ctx (Suc i) resolvedDest destDir sources
               (result\<lparr>FailureCount := Suc (FailureCount result),
                       Errors := Errors result @ [''target exists: '' @ target]\<rparr>)
               (fs, buf)
           else
             (case copyPath os ctx source target ActionCopy (fs, buf) of
                (Some err, fs1, buf1) \<Rightarrow>
                  copyLoop os ctx (Suc i) resolvedDest destDir sources
                    (result\<lparr>FailureCount := Suc (FailureCount result),
                            Errors := Errors result @ [errText err]\<rparr>)
                    (fs1, buf1)
              | (None, fs1, buf1) \<Rightarrow>
                  let result1 = result\<lparr>SuccessCount := Suc (SuccessCount result)\<rparr>
                  in copyLoop os ctx (Suc i) resolvedDest destDir sources result1
                       (fs1,
                        actionProgressNonBlocking buf1
                          (progressMsg ActionCopy target
                             (SuccessCount result1 + FailureCount result1)))))"

definition copyPaths ::
  "'fs OS \<Rightarrow> Context \<Rightarrow> string list \<Rightarrow> string \<Rightarrow> 'fs \<times> ActionProgress list
     \<Rightarrow> ActionResult \<times> 'fs \<times> ActionProgress list" where
  "copyPaths os ctx paths destination st =
     (case st of (fs, buf) \<Rightarrow>
        (case resolveDestination os fs destination paths of
           Inl err \<Rightarrow>
             ((emptyResult ActionCopy)\<lparr>Errors := [errText err], Message := ''copy failed''\<rparr>,
              fs, buf)
         | Inr (resolvedDest, destDir) \<Rightarrow>
             copyLoop os ctx 0 resolvedDest destDir paths (emptyResult ActionCopy) (fs, buf)))"

fun backupCopyLoop ::
  "'fs OS \<Rightarrow> Context \<Rightarrow> nat \<Rightarrow> string \<Rightarrow> string list \<Rightarrow> ActionResult
     \<Rightarrow> 'fs \<times> ActionProgress list \<Rightarrow> ActionResult \<times> 'fs \<times> ActionProgress list" where
  "backupCopyLoop os ctx i backupRoot [] result (fs, buf) =
     (result\<lparr>Message := ''backup complete: '' @ backupRoot\<rparr>, fs, buf)"
| "backupCopyLoop os ctx i backupRoot (source # sources) result (fs, buf) =
     (if ctxErr ctx i then (result\<lparr>Message := ''backup cancelled''\<rparr>, fs, buf)
      else
        let target = Join backupRoot (Base source)
        in (case copyPath os ctx source target ActionBackup (fs, buf) of
              (Some err, fs1, buf1) \<Rightarrow>
                backupCopyLoop os ctx (Suc i) backupRoot sources
                  (result\<lparr>FailureCount := Suc (FailureCount result),
                          Errors := Errors result @ [errText err]\<rparr>)
                  (fs1, buf1)
            | (None, fs1, buf1) \<Rightarrow>
                let result1 = result\<lparr>SuccessCount := Suc (SuccessCount result)\<rparr>
                in backupCopyLoop os ctx (Suc i) backupRoot sources result1
                     (fs1,
                      actionProgressNonBlocking buf1
                        (progressMsg ActionBackup target
                           (SuccessCount result1 + FailureCount result1)))))"

definition backupFailed :: "string \<Rightarrow> ActionResult" where
  "backupFailed msg =
     (emptyResult ActionBackup)\<lparr>Errors := [msg], Message := ''backup failed''\<rparr>"

definition backupCopy ::
  "'fs OS \<Rightarrow> Context \<Rightarrow> string list \<Rightarrow> string \<Rightarrow> 'fs \<times> ActionProgress list
     \<Rightarrow> ActionResult \<times> 'fs \<times> ActionProgress list" where
  "backupCopy os ctx paths destination st =
     (case st of (fs, buf) \<Rightarrow>
        (case Abs (Getwd os) destination of
           Inl err \<Rightarrow> (backupFailed (errText err), fs, buf)
         | Inr backupRoot \<Rightarrow>
             if exists os fs backupRoot then (backupFailed ''backup destination exists'', fs, buf)
             else
               (case MkdirAll os backupRoot fs of
                  (Some err, fs1) \<Rightarrow> (backupFailed (errText err), fs1, buf)
                | (None, fs1) \<Rightarrow>
                    backupCopyLoop os ctx 0 backupRoot paths (emptyResult ActionBackup)
                      (fs1, buf))))"

fun archiveLoop ::
  "'fs OS \<Rightarrow> Context \<Rightarrow> nat \<Rightarrow> string \<Rightarrow> string list \<Rightarrow> ActionResult
     \<Rightarrow> 'fs \<times> ActionProgress list \<Rightarrow> ActionResult \<times> 'fs \<times> ActionProgress list" where
  "archiveLoop os ctx i archivePath [] result (fs, buf) =
     (result\<lparr>Message := ''backup complete: '' @ archivePath\<rparr>, fs, buf)"
| "archiveLoop os ctx i archivePath (source # sources) result (fs, buf) =
     (if ctxErr ctx i then (result\<lparr>Message := ''backup cancelled''\<rparr>, fs, buf)
      else
        let base = Base source
        in (case addToArchive os ctx archivePath source base result (fs, buf) of
              (Some err, result1, fs1, buf1) \<Rightarrow>
                archiveLoop os ctx (Suc i) archivePath sources
                  (result1\<lparr>Errors := Errors result1 @ [errText err],
                           FailureCount := Suc (FailureCount result1)\<rparr>)
                  (fs1, buf1)
            | (None, result1, fs1, buf1) \<Rightarrow>
                archiveLoop os ctx (Suc i) archivePath sources result1 (fs1, buf1)))"

definition backupCompressed ::
  "'fs OS \<Rightarrow> Context \<Rightarrow> string list \<Rightarrow> string \<Rightarrow> 'fs \<times> ActionProgress list
     \<Rightarrow> ActionResult \<times> 'fs \<times> ActionProgress list" where
  "backupCompressed os ctx paths destination st =
     (case st of (fs, buf) \<Rightarrow>
        (case Abs (Getwd os) destination of
           Inl err \<Rightarrow> (backupFailed (errText err), fs, buf)
         | Inr archivePath \<Rightarrow>
             if exists os fs archivePath then (backupFailed ''backup archive exists'', fs, buf)
             else
               (case MkdirAll os (Dir archivePath) fs of
                  (Some err, fs1) \<Rightarrow> (backupFailed (errText err), fs1, buf)
                | (None, fs1) \<Rightarrow>
                    (case Create os archivePath fs1 of
                       (Some err, fs2) \<Rightarrow> (backupFailed (errText err), fs2, buf)
                     | (None, fs2) \<Rightarrow>
                         (case archiveLoop os ctx 0 archivePath paths
                                 (emptyResult ActionBackup) (fs2, buf) of
                            (result, fs3, buf3) \<Rightarrow>
                              (result, CloseArchive os archivePath fs3, buf3))))))"

definition backupPaths ::
  "'fs OS \<Rightarrow> Context \<Rightarrow> string list \<Rightarrow> string \<Rightarrow> 'fs \<times> ActionProgress list
     \<Rightarrow> ActionResult \<times> 'fs \<times> ActionProgress list" where
  "backupPaths os ctx paths destination st =
     (case st of (fs, buf) \<Rightarrow>
        if destination = [] then (backupFailed ''destination required'', fs, buf)
        else if HasSuffix destination ''.tar.gz''
        then backupCompressed os ctx paths destination st
        else backupCopy os ctx paths destination st)"

definition Execute ::
  "'fs OS \<Rightarrow> Context \<Rightarrow> ActionRequest \<Rightarrow> 'fs \<times> FSActions
     \<Rightarrow> (ActionResult \<times> error option) outcome \<times> 'fs \<times> FSActions" where
  "Execute os ctx req st =
     (case st of (fs, actions) \<Rightarrow>
      (case normalizePaths (Getwd os) (SourcePaths req) of
         Inl err \<Rightarrow> (Returns (emptyResult (reqType req), Some err), fs, actions)
       | Inr paths \<Rightarrow>
      (case validateRequest (UserHomeDir os) req paths of
         Some err \<Rightarrow> (Returns (emptyResult (reqType req), Some err), fs, actions)
       | None \<Rightarrow>
      (case requireConfirmation (Lstat os fs) req paths of
         Some err \<Rightarrow> (Returns (emptyResult (reqType req), Some err), fs, actions)
       | None \<Rightarrow>
         if reqType req \<noteq> ActionDelete \<and> reqType req \<noteq> ActionMove
            \<and> reqType req \<noteq> ActionCopy \<and> reqType req \<noteq> ActionBackup
         then (Returns (emptyResult (reqType req), Some (ErrMsg ''unsupported action'')), fs,
               actions\<lparr>actProgress := ClosedChan []\<rparr>)
         else
           (case (if reqType req = ActionDelete then deletePaths os ctx paths (fs, [])
                  else if reqType req = ActionMove
                  then movePaths os ctx paths (Destination req) (fs, [])
                  else if reqType req = ActionCopy
                  then copyPaths os ctx paths (Destination req) (fs, [])
                  else backupPaths os ctx paths (Destination req) (fs, [])) of
              (result, fs1, buf) \<Rightarrow>
                if length buf < progressCapacity then
                  (Returns (result, None), fs1,
                   actions\<lparr>actProgress :=
                     ClosedChan
                       (buf @ [\<lparr>apType = reqType req, apCurrent = [],
                                apProcessed = SuccessCount result + FailureCount result,
                                apTotal = 0, apCompleted = True, apErrMessage = []\<rparr>])\<rparr>)
                else (Blocks, fs1, actions\<lparr>actProgress := OpenChan buf\<rparr>))))))"

section \<open>Directory listings, clean paths and unmeasured files\<close>

text \<open>
  Properties of the inputs and of the intermediate results, for the theorems about a walk.

  A name as \<^verbatim>\<open>os.ReadDir\<close> returns it is not empty, holds no separator and is neither \<^verbatim>\<open>.\<close>
  nor \<^verbatim>\<open>..\<close>. A path is clean and absolute when it starts with the separator and
  \<^verbatim>\<open>filepath.Clean\<close> leaves it as it is. The entries of such a directory have the paths
  \<open>childPrefix path @ name\<close>, and a path is under the directory when it is the directory
  or starts with that prefix.
\<close>

definition plainName :: "string \<Rightarrow> bool" where
  "plainName name = (name \<noteq> [] \<and> Separator \<notin> set name \<and> name \<noteq> ''.'' \<and> name \<noteq> ''..'')"

definition cleanAbs :: "string \<Rightarrow> bool" where
  "cleanAbs path = (HasPrefix path ''/'' \<and> Clean path = path)"

definition childPrefix :: "string \<Rightarrow> string" where
  "childPrefix path = (if path = ''/'' then path else path @ [Separator])"

definition under :: "string \<Rightarrow> string \<Rightarrow> bool" where
  "under path q = (q = path \<or> prefix (childPrefix path) q)"

text \<open>
  A tree is well formed when the names in every directory are plain and distinct, as the
  listing of a real directory is.
\<close>

fun wellFormed :: "FsEntry \<Rightarrow> bool"
and wellFormedEntries :: "FsEntry list \<Rightarrow> bool" where
  "wellFormed (FsFile name lstat) = True"
| "wellFormed (FsDir name info entries readErr) = wellFormedEntries entries"
| "wellFormedEntries [] = True"
| "wellFormedEntries (d1 # ds) =
     (plainName (entryName d1) \<and> entryName d1 \<notin> set (map entryName ds)
      \<and> wellFormed d1 \<and> wellFormedEntries ds)"

definition wellFormedAt :: "World \<Rightarrow> string \<Rightarrow> bool" where
  "wellFormedAt world path =
     (case lstatTree world path of Inl err \<Rightarrow> True | Inr entry \<Rightarrow> wellFormed entry)"

text \<open>
  A file node as the walk creates it and as it stays when its size never arrives; an index
  holds such a node at a path.
\<close>

definition unsizedFile :: "Node \<Rightarrow> bool" where
  "unsizedFile n = (Type n = NodeFile \<and> SizeBytes n = 0 \<and> AccumBytes n = 0)"

definition unmeasuredAt :: "NodeIndex \<Rightarrow> string \<Rightarrow> bool" where
  "unmeasuredAt nodes q = (case map_of nodes q of None \<Rightarrow> False | Some n \<Rightarrow> unsizedFile n)"

text \<open>
  What a part of the walk does to the state, for a set of paths \<open>region\<close>: it appends jobs
  with distinct paths in the region, each with an unmeasured file node in the index, and
  it changes no node outside the region. \<open>visitStep\<close> is that for one call of the
  callback.
\<close>

definition walkedWithin :: "(string \<Rightarrow> bool) \<Rightarrow> WalkState \<Rightarrow> WalkState \<Rightarrow> bool" where
  "walkedWithin region st st' =
     (\<exists>js. wsJobs st' = wsJobs st @ js \<and> distinct (map fst js)
        \<and> (\<forall>job\<in>set js. region (fst job) \<and> unmeasuredAt (wsNodes st') (fst job))
        \<and> (\<forall>k. \<not> region k \<longrightarrow> map_of (wsNodes st') k = map_of (wsNodes st) k))"

definition visitStep ::
  "string \<Rightarrow> error + FsEntry \<Rightarrow> WalkState \<Rightarrow> error option \<times> WalkState \<Rightarrow> bool" where
  "visitStep p a s r =
     (case a of
        Inl e \<Rightarrow> wsJobs (snd r) = wsJobs s \<and> wsNodes (snd r) = wsNodes s
      | Inr (FsFile name lstat) \<Rightarrow> walkedWithin (\<lambda>q. q = p) s (snd r)
      | Inr (FsDir name info entries readErr) \<Rightarrow>
          walkedWithin (under p) s (snd r) \<and> wsJobs (snd r) = wsJobs s
          \<and> (fst r = None \<longrightarrow> walkedWithin (\<lambda>q. q = p) s (snd r)))"

text \<open>
  The same filesystem with every file whose \<^verbatim>\<open>os.Lstat\<close> fails replaced by a file of size 0
  that can be read, and the jobs of a walk with every failed result replaced by size 0.
\<close>

definition sizeOrZero :: "error + 64 word \<Rightarrow> error + 64 word" where
  "sizeOrZero r = (case r of Inl err \<Rightarrow> Inr 0 | Inr sz \<Rightarrow> Inr sz)"

fun withEmptyFiles :: "FsEntry \<Rightarrow> FsEntry" where
  "withEmptyFiles (FsFile name lstat) = FsFile name (sizeOrZero lstat)"
| "withEmptyFiles (FsDir name info entries readErr) =
     FsDir name info (map withEmptyFiles entries) readErr"

definition emptyFilesWorld :: "World \<Rightarrow> World" where
  "emptyFilesWorld world =
     world\<lparr>lstatTree :=
       (\<lambda>p. case lstatTree world p of Inl err \<Rightarrow> Inl err | Inr entry \<Rightarrow> Inr (withEmptyFiles entry))\<rparr>"

definition jobsAsEmpty :: "WalkState \<Rightarrow> WalkState" where
  "jobsAsEmpty st = st\<lparr>wsJobs := map (\<lambda>job. (fst job, sizeOrZero (snd job))) (wsJobs st)\<rparr>"

section \<open>Concrete inputs\<close>

text \<open>
  The trees, worlds and requests at which the theorems below are evaluated. A node the
  walk created is written with \<open>mkNode\<close>: its ID is its path and its \<open>ModTime\<close> is
  the zero time.
\<close>

definition mkNode ::
  "string \<Rightarrow> string \<Rightarrow> NodeType \<Rightarrow> string \<Rightarrow> 64 word \<Rightarrow> 64 word \<Rightarrow> string list
     \<Rightarrow> 64 word \<Rightarrow> 64 word \<Rightarrow> 64 word \<Rightarrow> Node" where
  "mkNode path name ty parent sz acc children cc fc dc =
     \<lparr>ID = path, Name = name, Path = path, Type = ty, SizeBytes = sz, AccumBytes = acc,
      ModTime = ZeroTime, ParentID = parent, ChildrenIDs = children, ChildCount = cc,
      FileCount = fc, DirCount = dc, Scanned = (ty = NodeDir)\<rparr>"

text \<open>The directory \<^verbatim>\<open>/root\<close> holds the directory \<^verbatim>\<open>a\<close>, which holds the 10-byte file \<^verbatim>\<open>f1\<close>.\<close>

definition tinyTree :: FsEntry where
  "tinyTree = FsDir ''root'' (Inr 100) [FsDir ''a'' (Inr 200) [FsFile ''f1'' (Inr 10)] None] None"

definition tinyWorld :: World where
  "tinyWorld =
     \<lparr>workDir = Inr ''/'',
      lstatTree = (\<lambda>p. if p = ''/root'' then Inr tinyTree else Inl ErrNotExist),
      statModTime = (\<lambda>p. if p = ''/root'' then Inr 100 else Inl ErrNotExist),
      cacheFileOnDisk = StatFails ErrNotExist, cacheWritable = True\<rparr>"

definition tinyReq :: ScanRequest where
  "tinyReq = \<lparr>RootPath = ''/root'', ShowHidden = False\<rparr>"

definition tinyScanner :: FSScanner where
  "tinyScanner = NewFSScanner ''/home/u/.cache/sweepfs/cache.json''"

definition tinyWalked :: NodeIndex where
  "tinyWalked =
     [(''/root'', mkNode ''/root'' ''root'' NodeDir [] 0 0 [] 0 0 0),
      (''/root/a'', mkNode ''/root/a'' ''a'' NodeDir ''/root'' 0 0 [] 0 0 0),
      (''/root/a/f1'', mkNode ''/root/a/f1'' ''f1'' NodeFile ''/root/a'' 0 0 [] 0 0 0)]"

definition tinyCollected :: NodeIndex where
  "tinyCollected =
     [(''/root'', mkNode ''/root'' ''root'' NodeDir [] 0 0 [] 0 0 0),
      (''/root/a'', mkNode ''/root/a'' ''a'' NodeDir ''/root'' 0 0 [] 0 0 0),
      (''/root/a/f1'', mkNode ''/root/a/f1'' ''f1'' NodeFile ''/root/a'' 10 10 [] 0 0 0)]"

definition tinyIndex :: NodeIndex where
  "tinyIndex =
     [(''/root'', mkNode ''/root'' ''root'' NodeDir [] 0 10 [''/root/a''] 1 1 1),
      (''/root/a'', mkNode ''/root/a'' ''a'' NodeDir ''/root'' 0 10 [''/root/a/f1''] 0 1 0),
      (''/root/a/f1'', mkNode ''/root/a/f1'' ''f1'' NodeFile ''/root/a'' 10 10 [] 0 1 0)]"

text \<open>\<^verbatim>\<open>/root\<close> holds the directory \<^verbatim>\<open>node_modules\<close>, which holds the file \<^verbatim>\<open>x\<close>.\<close>

definition modulesTree :: FsEntry where
  "modulesTree =
     FsDir ''root'' (Inr 100) [FsDir ''node_modules'' (Inr 200) [FsFile ''x'' (Inr 7)] None] None"

definition showAllReq :: ScanRequest where
  "showAllReq = \<lparr>RootPath = ''/root'', ShowHidden = True\<rparr>"

text \<open>The filesystem root \<^verbatim>\<open>/\<close> holds the directory \<^verbatim>\<open>a\<close>, which holds the 10-byte file \<^verbatim>\<open>f1\<close>.\<close>

definition slashTree :: FsEntry where
  "slashTree = FsDir ''/'' (Inr 100) [FsDir ''a'' (Inr 200) [FsFile ''f1'' (Inr 10)] None] None"

definition slashWorld :: World where
  "slashWorld =
     \<lparr>workDir = Inr ''/'',
      lstatTree = (\<lambda>p. if p = ''/'' then Inr slashTree else Inl ErrNotExist),
      statModTime = (\<lambda>p. if p = ''/'' then Inr 100 else Inl ErrNotExist),
      cacheFileOnDisk = StatFails ErrNotExist, cacheWritable = True\<rparr>"

definition slashReq :: ScanRequest where
  "slashReq = \<lparr>RootPath = ''/'', ShowHidden = False\<rparr>"

definition slashWalked :: NodeIndex where
  "slashWalked =
     [(''/'', mkNode ''/'' ''/'' NodeDir [] 0 0 [] 0 0 0),
      (''/a'', mkNode ''/a'' ''a'' NodeDir ''/'' 0 0 [] 0 0 0),
      (''/a/f1'', mkNode ''/a/f1'' ''f1'' NodeFile ''/a'' 0 0 [] 0 0 0)]"

definition slashCollected :: NodeIndex where
  "slashCollected =
     [(''/'', mkNode ''/'' ''/'' NodeDir [] 0 0 [] 0 0 0),
      (''/a'', mkNode ''/a'' ''a'' NodeDir ''/'' 0 0 [] 0 0 0),
      (''/a/f1'', mkNode ''/a/f1'' ''f1'' NodeFile ''/a'' 10 10 [] 0 0 0)]"

definition slashIndex :: NodeIndex where
  "slashIndex =
     [(''/'', mkNode ''/'' ''/'' NodeDir [] 0 0 [''/a''] 1 0 1),
      (''/a'', mkNode ''/a'' ''a'' NodeDir ''/'' 0 10 [''/a/f1''] 0 1 0),
      (''/a/f1'', mkNode ''/a/f1'' ''f1'' NodeFile ''/a'' 10 10 [] 0 1 0)]"

text \<open>The context is cancelled after the walk's last poll, before a worker takes a job.\<close>

definition cancelledAfterWalk :: Context where
  "cancelledAfterWalk = \<lparr>doneAtVisit = None, doneAtJob = Some 0\<rparr>"

definition tinyUnsized :: NodeIndex where
  "tinyUnsized =
     [(''/root'', mkNode ''/root'' ''root'' NodeDir [] 0 0 [''/root/a''] 1 1 1),
      (''/root/a'', mkNode ''/root/a'' ''a'' NodeDir ''/root'' 0 0 [''/root/a/f1''] 0 1 0),
      (''/root/a/f1'', mkNode ''/root/a/f1'' ''f1'' NodeFile ''/root/a'' 0 0 [] 0 1 0)]"

text \<open>
  \<^verbatim>\<open>/root\<close> holds 64 directories that cannot be read: each read ends in a permission
  error, which the walk reports as a progress message.
\<close>

definition lockedNames :: "string list" where
  "lockedNames =
     map (\<lambda>c. [c]) ''ABCDEFGHIJKLMNOPQRSTUVWXYZabcdefghijklmnopqrstuvwxyz0123456789+-''"

definition lockedDir :: "string \<Rightarrow> FsEntry" where
  "lockedDir name = FsDir name (Inr 0) [] (Some ErrPermission)"

definition lockedWorld :: World where
  "lockedWorld =
     \<lparr>workDir = Inr ''/'',
      lstatTree = (\<lambda>p. if p = ''/root'' then Inr (FsDir ''root'' (Inr 100) (map lockedDir lockedNames) None)
                       else Inl ErrNotExist),
      statModTime = (\<lambda>p. if p = ''/root'' then Inr 100 else Inl ErrNotExist),
      cacheFileOnDisk = StatFails ErrNotExist, cacheWritable = True\<rparr>"

text \<open>
  An operating system for the evaluations: the filesystem is a table from paths to file
  information, and the calls of the standard library read and change the table. The three
  helpers stay parameters: what is evaluated below is stated for every behaviour
  \<open>dd\<close>, \<open>cp\<close> and \<open>aa\<close> of \<^verbatim>\<open>deleteDirectory\<close>, \<^verbatim>\<open>copyPath\<close> and \<^verbatim>\<open>addToArchive\<close>.
\<close>

type_synonym Table = "(string \<times> FileInfo) list"

definition tableStat :: "Table \<Rightarrow> string \<Rightarrow> error + FileInfo" where
  "tableStat fs path = (case map_of fs path of Some info \<Rightarrow> Inr info | None \<Rightarrow> Inl ErrNotExist)"

definition tableOS ::
  "(Context \<Rightarrow> string \<Rightarrow> ActionResult \<Rightarrow> Table \<times> ActionProgress list
       \<Rightarrow> error option \<times> ActionResult \<times> Table \<times> ActionProgress list)
   \<Rightarrow> (Context \<Rightarrow> string \<Rightarrow> string \<Rightarrow> ActionType \<Rightarrow> Table \<times> ActionProgress list
       \<Rightarrow> error option \<times> Table \<times> ActionProgress list)
   \<Rightarrow> (Context \<Rightarrow> string \<Rightarrow> string \<Rightarrow> string \<Rightarrow> ActionResult \<Rightarrow> Table \<times> ActionProgress list
       \<Rightarrow> error option \<times> ActionResult \<times> Table \<times> ActionProgress list)
   \<Rightarrow> Table OS" where
  "tableOS dd cp aa =
     \<lparr>Getwd = Inr ''/'',
      UserHomeDir = Inr ''/home/u'',
      Lstat = tableStat,
      Stat = tableStat,
      Remove = (\<lambda>path fs. if map_of fs path = None then (Some ErrNotExist, fs)
                           else (None, AList.delete path fs)),
      Rename = (\<lambda>source target fs.
                  case map_of fs source of
                    None \<Rightarrow> (Some ErrNotExist, fs)
                  | Some info \<Rightarrow> (None, AList.update target info (AList.delete source fs))),
      MkdirAll = (\<lambda>path fs. (None, AList.update path \<lparr>IsDir = True, Size = 0\<rparr> fs)),
      Create = (\<lambda>path fs. (None, AList.update path \<lparr>IsDir = False, Size = 0\<rparr> fs)),
      CloseArchive = (\<lambda>path fs. fs),
      deleteDirectory = dd, copyPath = cp, addToArchive = aa\<rparr>"

text \<open>The directory \<^verbatim>\<open>/data/d\<close> with the file \<^verbatim>\<open>/data/d/f\<close>, and the file \<^verbatim>\<open>/data/g\<close>.\<close>

definition dataFs :: Table where
  "dataFs =
     [(''/data'', \<lparr>IsDir = True, Size = 0\<rparr>),
      (''/data/d'', \<lparr>IsDir = True, Size = 0\<rparr>),
      (''/data/d/f'', \<lparr>IsDir = False, Size = 10\<rparr>),
      (''/data/g'', \<lparr>IsDir = False, Size = 5\<rparr>),
      (''/backup'', \<lparr>IsDir = True, Size = 0\<rparr>),
      (''/backup.tar.gz'', \<lparr>IsDir = False, Size = 99\<rparr>)]"

definition deleteDirReq :: "string \<Rightarrow> ActionRequest" where
  "deleteDirReq token =
     \<lparr>reqType = ActionDelete, SourcePaths = [''/data/d''], Destination = [],
      SafeMode = True, ConfirmToken = token\<rparr>"

definition backupReq :: "string \<Rightarrow> ActionRequest" where
  "backupReq destination =
     \<lparr>reqType = ActionBackup, SourcePaths = [''/data/d''], Destination = destination,
      SafeMode = True, ConfirmToken = []\<rparr>"

text \<open>A node rebuilt from a cache entry keeps the entry's modification time.\<close>

definition mkCached ::
  "Time \<Rightarrow> string \<Rightarrow> string \<Rightarrow> NodeType \<Rightarrow> string \<Rightarrow> 64 word \<Rightarrow> 64 word \<Rightarrow> string list
     \<Rightarrow> 64 word \<Rightarrow> 64 word \<Rightarrow> 64 word \<Rightarrow> Node" where
  "mkCached t path name ty parent sz acc children cc fc dc =
     (mkNode path name ty parent sz acc children cc fc dc)\<lparr>ModTime := t\<rparr>"

definition mkEntry ::
  "string \<Rightarrow> string \<Rightarrow> NodeType \<Rightarrow> 64 word \<Rightarrow> string \<Rightarrow> 64 word \<Rightarrow> 64 word \<Rightarrow> string list
     \<Rightarrow> 64 word \<Rightarrow> 64 word \<Rightarrow> 64 word \<Rightarrow> cacheEntry" where
  "mkEntry path name ty mt parent sz acc children cc fc dc =
     \<lparr>entPath = path, entName = name, entType = ty, entModTime = mt, entSizeBytes = sz,
      entAccumBytes = acc, entFileCount = fc, entDirCount = dc, entChildCount = cc,
      entChildren = children, entParentID = parent\<rparr>"

text \<open>
  A cache file that knows the directory \<^verbatim>\<open>/root/a\<close> with the modification time it has on
  disk, 200, and its file; it has no entry for \<^verbatim>\<open>/root\<close>.
\<close>

definition oldEntries :: "(string \<times> cacheEntry) list" where
  "oldEntries =
     [(''/root/a'', mkEntry ''/root/a'' ''a'' NodeDir 200 ''/root'' 0 10 [''/root/a/f1''] 0 1 0),
      (''/root/a/f1'', mkEntry ''/root/a/f1'' ''f1'' NodeFile 0 ''/root/a'' 10 10 [] 0 1 0)]"

definition spliceWorld :: World where
  "spliceWorld =
     \<lparr>workDir = Inr ''/'',
      lstatTree = (\<lambda>p. if p = ''/root'' then Inr tinyTree else Inl ErrNotExist),
      statModTime = (\<lambda>p. if p = ''/root'' then Inr 100 else Inl ErrNotExist),
      cacheFileOnDisk =
        Parsed \<lparr>cfVersion = 1, cfShowHidden = False, cfEntries = Some oldEntries\<rparr>,
      cacheWritable = True\<rparr>"

text \<open>\<^verbatim>\<open>UnixNano\<close> of the zero time, which \<^verbatim>\<open>saveCache\<close> writes for a node the walk created.\<close>

definition zeroNano :: "64 word" where
  "zeroNano = - 6795364578871345152"

text \<open>The scanner once it has loaded that file, and the stages of the scan.\<close>

definition spliceLoaded :: FSScanner where
  "spliceLoaded =
     tinyScanner\<lparr>cacheEntries := Some oldEntries, cacheHiddenFlag := False, cacheLoaded := True\<rparr>"

definition spliceMsg :: ScanProgress where
  "spliceMsg = \<lparr>spPath = ''/root/a'', spScanned = 1, spCompleted = False, spErrMessage = [],
                spCurrent = ''/root/a''\<rparr>"

definition spliceWalked :: NodeIndex where
  "spliceWalked =
     [(''/root'', mkNode ''/root'' ''root'' NodeDir [] 0 0 [] 0 0 0),
      (''/root/a'', mkCached (UnixTime 200) ''/root/a'' ''a'' NodeDir ''/root'' 0 10 [''/root/a/f1''] 0 1 0),
      (''/root/a/f1'', mkCached ZeroTime ''/root/a/f1'' ''f1'' NodeFile ''/root/a'' 10 10 [] 0 1 0)]"

definition spliceIndex :: NodeIndex where
  "spliceIndex =
     [(''/root'', mkNode ''/root'' ''root'' NodeDir [] 0 20 [''/root/a''] 1 2 1),
      (''/root/a'', mkCached (UnixTime 200) ''/root/a'' ''a'' NodeDir ''/root'' 0 20
                      [''/root/a/f1'', ''/root/a/f1''] 0 2 0),
      (''/root/a/f1'', mkCached ZeroTime ''/root/a/f1'' ''f1'' NodeFile ''/root/a'' 10 10 [] 0 1 0)]"

text \<open>What the first scan saves, and the stages of the scan that starts from it.\<close>

definition savedEntries :: "(string \<times> cacheEntry) list" where
  "savedEntries =
     [(''/root'', mkEntry ''/root'' ''root'' NodeDir zeroNano [] 0 20 [''/root/a''] 1 2 1),
      (''/root/a'', mkEntry ''/root/a'' ''a'' NodeDir 200 ''/root'' 0 20
                      [''/root/a/f1'', ''/root/a/f1''] 0 2 0),
      (''/root/a/f1'', mkEntry ''/root/a/f1'' ''f1'' NodeFile zeroNano ''/root/a'' 10 10 [] 0 1 0)]"

definition spliceWorld2 :: World where
  "spliceWorld2 =
     spliceWorld\<lparr>cacheFileOnDisk :=
       Parsed \<lparr>cfVersion = 1, cfShowHidden = False, cfEntries = Some savedEntries\<rparr>\<rparr>"

definition spliceLoaded2 :: FSScanner where
  "spliceLoaded2 =
     tinyScanner\<lparr>cacheEntries := Some savedEntries, cacheHiddenFlag := False, cacheLoaded := True\<rparr>"

definition spliceWalked2 :: NodeIndex where
  "spliceWalked2 =
     [(''/root'', mkNode ''/root'' ''root'' NodeDir [] 0 0 [] 0 0 0),
      (''/root/a'', mkCached (UnixTime 200) ''/root/a'' ''a'' NodeDir ''/root'' 0 20
                      [''/root/a/f1'', ''/root/a/f1''] 0 2 0),
      (''/root/a/f1'', mkCached (UnixTime zeroNano) ''/root/a/f1'' ''f1'' NodeFile ''/root/a'' 10 10 [] 0 1 0)]"

definition spliceIndex2 :: NodeIndex where
  "spliceIndex2 =
     [(''/root'', mkNode ''/root'' ''root'' NodeDir [] 0 30 [''/root/a''] 1 3 1),
      (''/root/a'', mkCached (UnixTime 200) ''/root/a'' ''a'' NodeDir ''/root'' 0 30
                      [''/root/a/f1'', ''/root/a/f1'', ''/root/a/f1''] 0 3 0),
      (''/root/a/f1'', mkCached (UnixTime zeroNano) ''/root/a/f1'' ''f1'' NodeFile ''/root/a'' 10 10 [] 0 1 0)]"

text \<open>
  \<^verbatim>\<open>/root/a\<close> holds two files: \<^verbatim>\<open>f1\<close>, whose \<^verbatim>\<open>os.Lstat\<close> fails because the file vanished after
  the walk listed it, and the 10-byte file \<^verbatim>\<open>f2\<close>.
\<close>

definition vanishedTree :: FsEntry where
  "vanishedTree =
     FsDir ''root'' (Inr 100)
       [FsDir ''a'' (Inr 200) [FsFile ''f1'' (Inl ErrNotExist), FsFile ''f2'' (Inr 10)] None] None"

definition vanishedWorld :: World where
  "vanishedWorld =
     \<lparr>workDir = Inr ''/'',
      lstatTree = (\<lambda>p. if p = ''/root'' then Inr vanishedTree else Inl ErrNotExist),
      statModTime = (\<lambda>p. if p = ''/root'' then Inr 100 else Inl ErrNotExist),
      cacheFileOnDisk = StatFails ErrNotExist, cacheWritable = True\<rparr>"

definition vanishedWalked :: NodeIndex where
  "vanishedWalked =
     [(''/root'', mkNode ''/root'' ''root'' NodeDir [] 0 0 [] 0 0 0),
      (''/root/a'', mkNode ''/root/a'' ''a'' NodeDir ''/root'' 0 0 [] 0 0 0),
      (''/root/a/f1'', mkNode ''/root/a/f1'' ''f1'' NodeFile ''/root/a'' 0 0 [] 0 0 0),
      (''/root/a/f2'', mkNode ''/root/a/f2'' ''f2'' NodeFile ''/root/a'' 0 0 [] 0 0 0)]"

definition vanishedCollected :: NodeIndex where
  "vanishedCollected =
     [(''/root'', mkNode ''/root'' ''root'' NodeDir [] 0 0 [] 0 0 0),
      (''/root/a'', mkNode ''/root/a'' ''a'' NodeDir ''/root'' 0 0 [] 0 0 0),
      (''/root/a/f1'', mkNode ''/root/a/f1'' ''f1'' NodeFile ''/root/a'' 0 0 [] 0 0 0),
      (''/root/a/f2'', mkNode ''/root/a/f2'' ''f2'' NodeFile ''/root/a'' 10 10 [] 0 0 0)]"

definition vanishedIndex :: NodeIndex where
  "vanishedIndex =
     [(''/root'', mkNode ''/root'' ''root'' NodeDir [] 0 10 [''/root/a''] 1 2 1),
      (''/root/a'', mkNode ''/root/a'' ''a'' NodeDir ''/root'' 0 10
         [''/root/a/f1'', ''/root/a/f2''] 0 2 0),
      (''/root/a/f1'', mkNode ''/root/a/f1'' ''f1'' NodeFile ''/root/a'' 0 0 [] 0 1 0),
      (''/root/a/f2'', mkNode ''/root/a/f2'' ''f2'' NodeFile ''/root/a'' 10 10 [] 0 1 0)]"

section \<open>Evaluation\<close>

lemmas path_defs = Clean_def Join_def Dir_def Base_def depth_def depthFrom_def Separator_def
  HasPrefix_def isHidden_def isWithin_def hasPathPrefix_def parentPath_def cleanPath_def Abs_def

lemmas visit_defs = visit_def ctxErr_def background_def skipOrNil_def countVisited_def
  isExcluded_def canReuseDir_def cacheShowHidden_def mergeCachedSubtree_def mergeEntries_def
  progressNonBlocking_def progressCapacity_def NewFSScanner_def isPermissionErr_def toNode_def
  timeFrom_def

lemmas pass_defs = applyHierarchy_def attachToParent_def applyAccumulation_def accumulateNode_def
  applyFileCounts_def countFilesNode_def applyDirCounts_def countDirsNode_def sortByDepth_def
  NodeFile_def NodeDir_def sumOverChildren_def dirContribution_def

section \<open>What the passes and the walk preserve\<close>

subsection \<open>Deleting the keys within a root\<close>

lemma fold_deleteWithin_filter:
  "fold (\<lambda>key acc. if isWithin rootPath key then AList.delete key acc else acc) ks m =
     filter (\<lambda>(k, v). \<not> (isWithin rootPath k \<and> k \<in> set ks)) m"
proof (induction ks arbitrary: m)
  case Nil
  then show ?case by simp
next
  case (Cons key ks)
  have del: "AList.delete key m = filter (\<lambda>(k, v). key \<noteq> k) m"
    by (simp add: AList.delete_eq)
  show ?case
  proof (cases "isWithin rootPath key")
    case True
    then show ?thesis
      by (simp add: Cons.IH del) (rule filter_cong, auto)
  next
    case False
    then show ?thesis
      by (simp add: Cons.IH) (rule filter_cong, auto)
  qed
qed

lemma deleteWithin_filter:
  "deleteWithin rootPath m = filter (\<lambda>(k, v). \<not> isWithin rootPath k) m"
  unfolding deleteWithin_def fold_deleteWithin_filter
  by (rule filter_cong) force+

lemma map_of_filter_key:
  "map_of (filter (\<lambda>(k, v). P k) m) key = (if P key then map_of m key else None)"
  by (induction m) auto

lemma map_of_deleteWithin:
  "map_of (deleteWithin rootPath m) key = (if isWithin rootPath key then None else map_of m key)"
  by (simp add: deleteWithin_filter map_of_filter_key)

lemma fold_keeps:
  assumes "\<And>p m n. map_of m k = Some n \<Longrightarrow> P n \<Longrightarrow> \<exists>n'. map_of (step p m) k = Some n' \<and> P n'"
    and "map_of m k = Some n" and "P n"
  shows "\<exists>n'. map_of (fold step order m) k = Some n' \<and> P n'"
  using assms(2,3)
proof (induction order arbitrary: m n)
  case Nil
  then show ?case by simp
next
  case (Cons p order)
  from assms(1) [OF Cons.prems] obtain n1 where "map_of (step p m) k = Some n1" "P n1"
    by blast
  then show ?case using Cons.IH by simp
qed

lemma fold_establishes:
  assumes keepP: "\<And>p m n. map_of m k = Some n \<Longrightarrow> P n \<Longrightarrow> \<exists>n'. map_of (step p m) k = Some n' \<and> P n'"
    and keepQ: "\<And>p m n. map_of m k = Some n \<Longrightarrow> Q n \<Longrightarrow> \<exists>n'. map_of (step p m) k = Some n' \<and> Q n'"
    and est: "\<And>m n. map_of m k = Some n \<Longrightarrow> P n \<Longrightarrow> \<exists>n'. map_of (step k m) k = Some n' \<and> Q n'"
    and "k \<in> set order" and "map_of m k = Some n" and "P n"
  shows "\<exists>n'. map_of (fold step order m) k = Some n' \<and> Q n'"
  using assms(4,5,6)
proof (induction order arbitrary: m n)
  case Nil
  then show ?case by simp
next
  case (Cons p order)
  show ?case
  proof (cases "p = k")
    case True
    from est [OF Cons.prems(2,3)] obtain n1 where n1: "map_of (step k m) k = Some n1" "Q n1"
      by blast
    from fold_keeps [of k Q step, OF keepQ n1] show ?thesis
      using True by simp
  next
    case False
    from keepP [OF Cons.prems(2,3)] obtain n1 where n1: "map_of (step p m) k = Some n1" "P n1"
      by blast
    from False Cons.prems(1) have "k \<in> set order" by simp
    from Cons.IH [OF this n1] show ?thesis by simp
  qed
qed

lemma fold_same_projection:
  assumes "\<And>p m. map_option h (map_of (step p m) k) = map_option h (map_of m k)"
  shows "map_option h (map_of (fold step order m) k) = map_option h (map_of m k)"
  by (induction order arbitrary: m) (simp_all add: assms)

lemma countFilesNode_lookup:
  "map_of (countFilesNode p m) k =
     (if k = p then
        map_option (\<lambda>n. n\<lparr>FileCount := (if Type n = NodeFile then 1 else sumOverChildren FileCount m n)\<rparr>)
          (map_of m k)
      else map_of m k)"
  by (auto simp: countFilesNode_def Let_def AList.update_conv' split: option.splits)

lemma countDirsNode_lookup:
  "map_of (countDirsNode p m) k =
     (if k = p then
        map_option (\<lambda>n. n\<lparr>DirCount := (if Type n = NodeFile then 0 else sumOverChildren dirContribution m n)\<rparr>)
          (map_of m k)
      else map_of m k)"
  by (auto simp: countDirsNode_def Let_def AList.update_conv' split: option.splits)

lemma accumulateNode_lookup:
  "map_of (accumulateNode p m) k =
     (if k = p then
        map_option (\<lambda>n. n\<lparr>AccumBytes :=
            (if Type n = NodeFile then (if AccumBytes n = 0 then SizeBytes n else AccumBytes n)
             else sumOverChildren AccumBytes m n)\<rparr>)
          (map_of m k)
      else map_of m k)"
  by (auto simp: accumulateNode_def Let_def AList.update_conv' split: option.splits)

lemma attachToParent_lookup:
  "map_of (attachToParent key m) k = Some n' \<Longrightarrow>
     \<exists>n. map_of m k = Some n \<and> n' = n\<lparr>ChildrenIDs := ChildrenIDs n', ChildCount := ChildCount n'\<rparr>"
  by (auto simp: attachToParent_def AList.update_conv' split: option.splits if_splits)

lemma attachToParent_keeps:
  "map_of m k = Some n \<Longrightarrow>
     \<exists>n'. map_of (attachToParent key m) k = Some n'
        \<and> n' = n\<lparr>ChildrenIDs := ChildrenIDs n', ChildCount := ChildCount n'\<rparr>"
  by (auto simp: attachToParent_def AList.update_conv' split: option.splits if_splits)

lemma in_keys_iff: "k \<in> set (map fst m) \<longleftrightarrow> map_of m k \<noteq> None"
  by (simp add: map_of_eq_None_iff)

lemma in_sortByDepth: "k \<in> set (sortByDepth (map fst m)) \<longleftrightarrow> map_of m k \<noteq> None"
  by (simp add: sortByDepth_def in_keys_iff del: set_map)

lemma Type_accumulateNode:
  "map_option Type (map_of (accumulateNode p m) k) = map_option Type (map_of m k)"
  by (simp add: accumulateNode_lookup option.map_comp o_def)

lemma Type_countFilesNode:
  "map_option Type (map_of (countFilesNode p m) k) = map_option Type (map_of m k)"
  by (simp add: countFilesNode_lookup option.map_comp o_def)

lemma Type_countDirsNode:
  "map_option Type (map_of (countDirsNode p m) k) = map_option Type (map_of m k)"
  by (simp add: countDirsNode_lookup option.map_comp o_def)

lemma Type_applyFileCounts:
  "map_option Type (map_of (applyFileCounts m) k) = map_option Type (map_of m k)"
  unfolding applyFileCounts_def by (rule fold_same_projection) (rule Type_countFilesNode)

lemma Type_applyDirCounts:
  "map_option Type (map_of (applyDirCounts m) k) = map_option Type (map_of m k)"
  unfolding applyDirCounts_def by (rule fold_same_projection) (rule Type_countDirsNode)

lemma applyFileCounts_file:
  assumes "map_of m k = Some n" and "Type n = NodeFile"
  shows "\<exists>n'. map_of (applyFileCounts m) k = Some n' \<and> Type n' = NodeFile \<and> FileCount n' = 1"
  unfolding applyFileCounts_def
proof (rule fold_establishes [where P = "\<lambda>n. Type n = NodeFile"
        and Q = "\<lambda>n. Type n = NodeFile \<and> FileCount n = 1"])
  show "k \<in> set (sortByDepth (map fst m))"
    using assms(1) by (simp add: in_sortByDepth)
qed (use assms in \<open>auto simp: countFilesNode_lookup\<close>)

lemma applyDirCounts_file:
  assumes "map_of m k = Some n" and "Type n = NodeFile" and "FileCount n = c"
  shows "\<exists>n'. map_of (applyDirCounts m) k = Some n' \<and> Type n' = NodeFile
           \<and> FileCount n' = c \<and> DirCount n' = 0"
  unfolding applyDirCounts_def
proof (rule fold_establishes [where P = "\<lambda>n. Type n = NodeFile \<and> FileCount n = c"
        and Q = "\<lambda>n. Type n = NodeFile \<and> FileCount n = c \<and> DirCount n = 0"])
  show "k \<in> set (sortByDepth (map fst m))"
    using assms(1) by (simp add: in_sortByDepth)
qed (use assms in \<open>auto simp: countDirsNode_lookup\<close>)

lemma walkDir_invariant:
  "(\<And>p a s. I s \<Longrightarrow> I (snd (fn p a s))) \<Longrightarrow> I st \<Longrightarrow> I (snd (walkDir fn path entry st))"
  "(\<And>p a s. I s \<Longrightarrow> I (snd (fn p a s))) \<Longrightarrow> I st \<Longrightarrow> I (snd (walkEntries fn path entries st))"
proof (induction fn path entry st and fn path entries st rule: walkDir_walkEntries.induct)
  case (1 fn path name lstat st)
  then show ?case by simp
next
  case (2 fn path name info entries readErr st)
  note step = "2.prems"(1)
  obtain e1 s1 where v1: "fn path (Inr (FsDir name info entries readErr)) st = (e1, s1)"
    by (cases "fn path (Inr (FsDir name info entries readErr)) st")
  have I1: "I s1"
    using step [OF "2.prems"(2), of path "Inr (FsDir name info entries readErr)"] v1 by simp
  show ?case
  proof (cases e1)
    case (Some err)
    then show ?thesis using v1 I1 by simp
  next
    case None
    obtain e2 s2 where
      v2: "(case readErr of None \<Rightarrow> (None, s1) | Some err \<Rightarrow> fn path (Inl err) s1) = (e2, s2)"
      by (cases "(case readErr of None \<Rightarrow> (None, s1) | Some err \<Rightarrow> fn path (Inl err) s1)")
    have I2: "I s2"
    proof (cases readErr)
      case None
      then show ?thesis using v2 I1 by simp
    next
      case (Some err)
      then show ?thesis using v2 step [OF I1, of path "Inl err"] by simp
    qed
    show ?thesis
    proof (cases e2)
      case (Some err)
      then show ?thesis using v1 v2 None I2 by simp
    next
      case N2: None
      have "I (snd (walkEntries fn path entries s2))"
        using "2.IH" [OF v1 [symmetric] None v2 [symmetric] N2 step I2] by simp
      then show ?thesis using v1 v2 None N2 by simp
    qed
  qed
next
  case (3 fn path st)
  then show ?case by simp
next
  case (4 fn path d1 ds st)
  note step = "4.prems"(1)
  obtain e1 s1 where w1: "walkDir fn (Join path (entryName d1)) d1 st = (e1, s1)"
    by (cases "walkDir fn (Join path (entryName d1)) d1 st")
  have I1: "I s1" using "4.IH"(1) [OF step "4.prems"(2)] w1 by simp
  show ?case
  proof (cases e1)
    case (Some err)
    then show ?thesis using w1 I1 by simp
  next
    case None
    have "I (snd (walkEntries fn path ds s1))"
      using "4.IH"(2) [OF w1 [symmetric] None step I1] by simp
    then show ?thesis using w1 None by simp
  qed
qed

lemma WalkDir_invariant:
  assumes step: "\<And>p a s. I s \<Longrightarrow> I (snd (fn p a s))" and "I st"
  shows "I (snd (WalkDir fn lstat rootPath st))"
proof -
  have "I (snd (case lstat rootPath of
              Inl err \<Rightarrow> fn rootPath (Inl err) st
            | Inr entry \<Rightarrow> walkDir fn rootPath entry st))"
    using step [OF assms(2)] walkDir_invariant(1) [of I fn, OF step assms(2)]
    by (cases "lstat rootPath") auto
  then show ?thesis
    by (auto simp: WalkDir_def split: prod.splits option.splits)
qed

subsection \<open>Keys\<close>

lemma keys_update_present:
  "map_of m k = Some v \<Longrightarrow> map fst (AList.update k v' m) = map fst m"
  by (simp add: AList.update_keys in_keys_iff del: set_map)

lemma keys_attachToParent: "map fst (attachToParent key m) = map fst m"
  by (auto simp: attachToParent_def keys_update_present split: option.splits)

lemma keys_accumulateNode: "map fst (accumulateNode p m) = map fst m"
  by (auto simp: accumulateNode_def Let_def keys_update_present split: option.splits)

lemma keys_countFilesNode: "map fst (countFilesNode p m) = map fst m"
  by (auto simp: countFilesNode_def Let_def keys_update_present split: option.splits)

lemma keys_countDirsNode: "map fst (countDirsNode p m) = map fst m"
  by (auto simp: countDirsNode_def Let_def keys_update_present split: option.splits)

lemma keys_fold:
  assumes "\<And>p m. map fst (step p m) = map fst m"
  shows "map fst (fold step order m) = map fst m"
  by (induction order arbitrary: m) (simp_all add: assms)

lemma keys_passes:
  "map fst (applyHierarchy m) = map fst m"
  "map fst (applyAccumulation m) = map fst m"
  "map fst (applyFileCounts m) = map fst m"
  "map fst (applyDirCounts m) = map fst m"
  unfolding applyHierarchy_def applyAccumulation_def applyFileCounts_def applyDirCounts_def
  by (simp_all add: keys_fold keys_attachToParent keys_accumulateNode keys_countFilesNode
      keys_countDirsNode)

lemma keys_collectResult:
  "map fst (fst (snd (collectResult r result acc))) = map fst (fst (snd acc))"
  by (cases acc) (auto simp: collectResult_def Let_def keys_update_present split: option.splits sum.splits)

lemma keys_collect_fold:
  "map fst (fst (snd (fold (collectResult r) jobs acc))) = map fst (fst (snd acc))"
  by (induction jobs arbitrary: acc) (simp_all add: keys_collectResult)

lemma distinct_mergeEntries:
  "distinct (map fst m) \<Longrightarrow> distinct (map fst (mergeEntries r entries m))"
  unfolding mergeEntries_def
  by (induction entries arbitrary: m) (auto simp: AList.distinct_update)

lemma distinct_visit:
  "distinct (map fst (wsNodes st)) \<Longrightarrow>
     distinct (map fst (wsNodes (snd (visit ctx req scanner r p arg st))))"
  by (auto simp: visit_def Let_def countVisited_def mergeCachedSubtree_def distinct_mergeEntries
      AList.distinct_update split: sum.splits FsEntry.splits option.splits)

lemma distinct_walk:
  "distinct (map fst (wsNodes st)) \<Longrightarrow>
     distinct (map fst (wsNodes (snd (WalkDir (visit ctx req scanner r) lstat r' st))))"
  by (rule WalkDir_invariant [where I = "\<lambda>s. distinct (map fst (wsNodes s))"])
    (simp_all add: distinct_visit)

subsection \<open>What replaceCache stores\<close>

lemma map_of_fold_update:
  "distinct (map fst nodes) \<Longrightarrow>
     map_of (fold (\<lambda>(key, node) acc. AList.update key node acc) nodes kept) k =
       (case map_of nodes k of Some n \<Rightarrow> Some n | None \<Rightarrow> map_of kept k)"
proof (induction nodes arbitrary: kept)
  case Nil
  then show ?case by simp
next
  case (Cons kn nodes)
  obtain k0 n0 where kn: "kn = (k0, n0)" by (cases kn)
  have notin: "map_of nodes k0 = None"
    using Cons.prems kn by (simp add: map_of_eq_None_iff)
  show ?case
    using Cons.prems kn notin
    by (simp add: Cons.IH AList.update_conv' split: option.splits)
qed

lemma replaceCache_within:
  assumes "distinct (map fst nodes)" and "isWithin r k"
    and "map_of (cache (replaceCache r nodes scanner)) k = Some n"
  shows "\<exists>n0. map_of nodes k = Some n0
            \<and> n = n0\<lparr>ChildrenIDs := ChildrenIDs n, ChildCount := ChildCount n\<rparr>"
proof -
  define stored where
    "stored = fold (\<lambda>(key, node) acc. AList.update key node acc) nodes (deleteWithin r (cache scanner))"
  have st: "map_of stored k = map_of nodes k"
    using assms(1,2) by (simp add: stored_def map_of_fold_update map_of_deleteWithin split: option.splits)
  have "map_of (cache (replaceCache r nodes scanner)) k = Some n \<Longrightarrow>
      \<exists>n0. map_of stored k = Some n0 \<and> n = n0\<lparr>ChildrenIDs := ChildrenIDs n, ChildCount := ChildCount n\<rparr>"
    unfolding replaceCache_def Let_def stored_def [symmetric]
    by (auto simp: AList.update_conv' split: if_splits option.splits)
  with assms(3) st show ?thesis by simp
qed

section \<open>The paths through a scan\<close>

lemma cacheShowHidden_progress [simp]:
  "cacheShowHidden (scanner\<lparr>progress := ch\<rparr>) showHidden = cacheShowHidden scanner showHidden"
  by (simp add: cacheShowHidden_def)

lemma canReuseRoot_progress [simp]:
  "canReuseRoot world (scanner\<lparr>progress := ch\<rparr>) path showHidden
     = canReuseRoot world scanner path showHidden"
  by (auto simp: canReuseRoot_def split: option.splits sum.splits)

lemma isCached_progress [simp]:
  "isCached (scanner\<lparr>progress := ch\<rparr>) path = isCached scanner path"
  by (simp add: isCached_def)

lemma Scan_walk_path:
  assumes load: "loadCache world scanner0 = (None, scanner1)"
    and sc: "scanner = scanner1\<lparr>progress := OpenChan []\<rparr>"
    and rp: "rootPath = cleanPath (workDir world) (RootPath req)"
    and noreuse: "\<not> canReuseRoot world scanner1 rootPath (ShowHidden req)"
    and nocached: "\<not> isCached scanner1 rootPath"
    and walk: "WalkDir (visit ctx req scanner rootPath) (lstatTree world) rootPath
        \<lparr>wsNodes = [(rootPath, newRootNode rootPath)], wsJobs = [],
         wsScannedCount = 0, wsProgress = [], wsPolls = 0\<rparr> = (walkErr, st1)"
    and coll: "fold (collectResult rootPath) (worker ctx (wsJobs st1))
        (0, wsNodes st1, wsProgress st1) = (processed, nodes1, buf1)"
    and passes: "applyDirCounts (applyFileCounts (applyAccumulation (applyHierarchy nodes1))) = nodes2"
  shows "Scan ctx req (world, scanner0) =
      (case walkErr of
         Some err \<Rightarrow>
           (Returns (\<lparr>resRootPath = rootPath\<rparr>, Some err), world,
            scanner\<lparr>progress := ClosedChan buf1\<rparr>)
       | None \<Rightarrow>
           if length buf1 < progressCapacity then
             (Returns (\<lparr>resRootPath = rootPath\<rparr>, None),
              saveCache nodes2 (ShowHidden req) (replaceCache rootPath nodes2 scanner) world,
              (replaceCache rootPath nodes2 scanner)\<lparr>progress :=
                 ClosedChan (buf1 @ [completedMsg rootPath (wsScannedCount st1)])\<rparr>)
           else
             (Blocks,
              saveCache nodes2 (ShowHidden req) (replaceCache rootPath nodes2 scanner) world,
              (replaceCache rootPath nodes2 scanner)\<lparr>progress := OpenChan buf1\<rparr>))"
proof -
  have nr: "\<not> canReuseRoot world scanner rootPath (ShowHidden req)"
    using noreuse by (simp add: sc)
  have nc: "\<not> isCached scanner rootPath"
    using nocached by (simp add: sc)
  show ?thesis
  proof (cases walkErr)
    case None
    show ?thesis
      unfolding Scan_def
      using nr nc noreuse nocached walk [unfolded None]
      by (simp add: Let_def load sc [symmetric] rp [symmetric] coll passes None)
  next
    case (Some err)
    show ?thesis
      unfolding Scan_def
      using nr nc noreuse nocached walk [unfolded Some]
      by (simp add: Let_def load sc [symmetric] rp [symmetric] coll passes Some)
  qed
qed

lemma tiny_load: "loadCache tinyWorld tinyScanner = (None, tinyScanner\<lparr>cacheLoaded := True\<rparr>)"
  by (simp add: loadCache_def tinyWorld_def tinyScanner_def NewFSScanner_def)

lemma tiny_root: "cleanPath (workDir tinyWorld) (RootPath tinyReq) = ''/root''"
  by (simp add: tinyWorld_def tinyReq_def path_defs)

lemma tiny_not_reused:
  "\<not> canReuseRoot tinyWorld (tinyScanner\<lparr>cacheLoaded := True\<rparr>) ''/root'' (ShowHidden tinyReq)"
  by (simp add: canReuseRoot_def tinyScanner_def NewFSScanner_def)

lemma tiny_not_cached: "\<not> isCached (tinyScanner\<lparr>cacheLoaded := True\<rparr>) ''/root''"
  by (simp add: isCached_def tinyScanner_def NewFSScanner_def)

lemma tiny_walk:
  "WalkDir (visit ctx tinyReq (tinyScanner\<lparr>cacheLoaded := True, progress := OpenChan []\<rparr>) ''/root'')
       (lstatTree tinyWorld) ''/root''
       \<lparr>wsNodes = [(''/root'', newRootNode ''/root'')], wsJobs = [],
        wsScannedCount = 0, wsProgress = [], wsPolls = 0\<rparr>
     = (None, \<lparr>wsNodes = tinyWalked, wsJobs = [(''/root/a/f1'', Inr 10)],
               wsScannedCount = 3, wsProgress = [], wsPolls = 3\<rparr>)"
  if "doneAtVisit ctx = None"
  using that
  by (simp add: WalkDir_def tinyWorld_def tinyTree_def tinyReq_def tinyScanner_def tinyWalked_def
      mkNode_def newRootNode_def path_defs visit_defs NodeDir_def NodeFile_def)

lemma tiny_collect:
  "fold (collectResult ''/root'') (worker background [(''/root/a/f1'', Inr 10)]) (0, tinyWalked, [])
     = (1, tinyCollected, [])"
  by (simp add: collectResult_def worker_def background_def tinyWalked_def tinyCollected_def mkNode_def)

lemma tiny_passes:
  "applyDirCounts (applyFileCounts (applyAccumulation (applyHierarchy tinyCollected))) = tinyIndex"
  by (simp add: tinyCollected_def tinyIndex_def mkNode_def pass_defs path_defs)

lemma tiny_replace:
  "cache (replaceCache ''/root'' tinyIndex (tinyScanner\<lparr>cacheLoaded := True, progress := OpenChan []\<rparr>))
     = tinyIndex"
  by (simp add: replaceCache_def deleteWithin_def tinyScanner_def NewFSScanner_def tinyIndex_def
      mkNode_def path_defs NodeDir_def NodeFile_def Let_def)

lemma tiny_collect':
  "fold (collectResult ''/root'')
     (worker background (wsJobs \<lparr>wsNodes = tinyWalked, wsJobs = [(''/root/a/f1'', Inr 10)],
               wsScannedCount = 3, wsProgress = [], wsPolls = 3\<rparr>))
     (0, wsNodes \<lparr>wsNodes = tinyWalked, wsJobs = [(''/root/a/f1'', Inr 10)],
               wsScannedCount = 3, wsProgress = [], wsPolls = 3\<rparr>,
      wsProgress \<lparr>wsNodes = tinyWalked, wsJobs = [(''/root/a/f1'', Inr 10)],
               wsScannedCount = 3, wsProgress = [], wsPolls = 3\<rparr>)
     = (1, tinyCollected, [])"
  using tiny_collect by simp

lemma tiny_scan:
  "fst (Scan background tinyReq (tinyWorld, tinyScanner)) = Returns (\<lparr>resRootPath = ''/root''\<rparr>, None)
   \<and> cache (snd (snd (Scan background tinyReq (tinyWorld, tinyScanner)))) = tinyIndex"
proof -
  have bg: "doneAtVisit background = None" by (simp add: background_def)
  note run = Scan_walk_path [OF tiny_load refl tiny_root [symmetric] tiny_not_reused tiny_not_cached
      tiny_walk [OF bg] tiny_collect' tiny_passes]
  show ?thesis
    unfolding run by (simp add: tiny_replace progressCapacity_def)
qed

lemma Scan_stages:
  assumes walks: "walksFilesystem world scanner0 req"
    and nopanic: "fst (Scan ctx req (world, scanner0)) \<noteq> Panics"
  shows "Scan ctx req (world, scanner0) =
      (let rootPath = scanRoot world req;
           scanner = scannerLoaded world scanner0;
           st1 = snd (scanWalk ctx req world scanner0);
           buf1 = snd (snd (scanCollected ctx req world scanner0));
           nodes2 = scanIndex ctx req world scanner0
       in case fst (scanWalk ctx req world scanner0) of
         Some err \<Rightarrow>
           (Returns (\<lparr>resRootPath = rootPath\<rparr>, Some err), world,
            scanner\<lparr>progress := ClosedChan buf1\<rparr>)
       | None \<Rightarrow>
           if length buf1 < progressCapacity then
             (Returns (\<lparr>resRootPath = rootPath\<rparr>, None),
              saveCache nodes2 (ShowHidden req) (replaceCache rootPath nodes2 scanner) world,
              (replaceCache rootPath nodes2 scanner)\<lparr>progress :=
                 ClosedChan (buf1 @ [completedMsg rootPath (wsScannedCount st1)])\<rparr>)
           else
             (Blocks,
              saveCache nodes2 (ShowHidden req) (replaceCache rootPath nodes2 scanner) world,
              (replaceCache rootPath nodes2 scanner)\<lparr>progress := OpenChan buf1\<rparr>))"
proof -
  obtain loadErr scanner1 where load: "loadCache world scanner0 = (loadErr, scanner1)"
    by (cases "loadCache world scanner0")
  have sc: "scannerLoaded world scanner0 = scanner1\<lparr>progress := OpenChan []\<rparr>"
    by (simp add: scannerLoaded_def load)
  have nr: "\<not> canReuseRoot world (scanner1\<lparr>progress := OpenChan []\<rparr>) (scanRoot world req) (ShowHidden req)"
    and nc: "\<not> isCached (scanner1\<lparr>progress := OpenChan []\<rparr>) (scanRoot world req)"
    using walks by (simp_all add: walksFilesystem_def sc)
  have np: "\<not> (loadErr \<noteq> None \<and> (case progress scanner1 of ClosedChan buf \<Rightarrow> True | _ \<Rightarrow> False))"
    using nopanic unfolding Scan_def by (auto simp: load)
  obtain walkErr st1 where walk: "scanWalk ctx req world scanner0 = (walkErr, st1)"
    by (cases "scanWalk ctx req world scanner0")
  obtain processed nodes1 buf1 where
    coll: "fold (collectResult (scanRoot world req)) (worker ctx (wsJobs st1))
        (0, wsNodes st1, wsProgress st1) = (processed, nodes1, buf1)"
    by (cases "fold (collectResult (scanRoot world req)) (worker ctx (wsJobs st1))
        (0, wsNodes st1, wsProgress st1)")
  have coll': "scanCollected ctx req world scanner0 = (processed, nodes1, buf1)"
    by (simp add: scanCollected_def walk coll)
  have idx: "scanIndex ctx req world scanner0 =
      applyDirCounts (applyFileCounts (applyAccumulation (applyHierarchy nodes1)))"
    by (simp add: scanIndex_def coll')
  have walk': "WalkDir (visit ctx req (scanner1\<lparr>progress := OpenChan []\<rparr>) (scanRoot world req))
        (lstatTree world) (scanRoot world req)
        \<lparr>wsNodes = [(scanRoot world req, newRootNode (scanRoot world req))], wsJobs = [],
         wsScannedCount = 0, wsProgress = [], wsPolls = 0\<rparr> = (walkErr, st1)"
    using walk by (simp add: scanWalk_def sc)
  show ?thesis
  proof (cases walkErr)
    case None
    show ?thesis
      unfolding Scan_def
      using nr nc np walk' [unfolded None]
      by (simp add: Let_def load sc scanRoot_def [symmetric] coll coll' idx walk None)
  next
    case (Some err)
    show ?thesis
      unfolding Scan_def
      using nr nc np walk' [unfolded Some]
      by (simp add: Let_def load sc scanRoot_def [symmetric] coll coll' idx walk Some)
  qed
qed

lemma file_counts_after_passes:
  assumes "map_of (applyDirCounts (applyFileCounts nodes)) key = Some n"
    and "Type n = NodeFile"
  shows "FileCount n = 1 \<and> DirCount n = 0"
proof -
  have "map_option Type (map_of nodes key) = Some NodeFile"
    using assms by (metis Type_applyDirCounts Type_applyFileCounts option.simps(9))
  then obtain n0 where n0: "map_of nodes key = Some n0" "Type n0 = NodeFile"
    by auto
  from applyFileCounts_file [OF n0] obtain n1 where
    n1: "map_of (applyFileCounts nodes) key = Some n1" "Type n1 = NodeFile" "FileCount n1 = 1"
    by blast
  from applyDirCounts_file [OF n1] assms(1) show ?thesis
    by auto
qed

lemma distinct_scanIndex: "distinct (map fst (scanIndex ctx req world scanner0))"
proof -
  have "distinct (map fst (wsNodes (snd (scanWalk ctx req world scanner0))))"
    unfolding scanWalk_def by (rule distinct_walk) simp
  then show ?thesis
    by (simp add: scanIndex_def keys_passes scanCollected_def Let_def keys_collect_fold)
qed

lemma Scan_success_cache:
  assumes walks: "walksFilesystem world scanner0 req"
    and run: "Scan ctx req (world, scanner0) = (Returns (res, None), world', scanner')"
  shows "cache scanner' =
      cache (replaceCache (scanRoot world req) (scanIndex ctx req world scanner0)
               (scannerLoaded world scanner0))"
    and "fst (scanWalk ctx req world scanner0) = None"
    and "res = \<lparr>resRootPath = scanRoot world req\<rparr>"
proof -
  have np: "fst (Scan ctx req (world, scanner0)) \<noteq> Panics"
    by (simp add: run)
  note st = Scan_stages [OF walks np, unfolded run Let_def]
  show "fst (scanWalk ctx req world scanner0) = None"
    using st by (auto split: option.splits)
  then show "cache scanner' =
      cache (replaceCache (scanRoot world req) (scanIndex ctx req world scanner0)
               (scannerLoaded world scanner0))"
    and "res = \<lparr>resRootPath = scanRoot world req\<rparr>"
    using st by (auto split: if_splits)
qed

lemma tiny_walks: "walksFilesystem tinyWorld tinyScanner tinyReq"
  by (simp add: walksFilesystem_def scannerLoaded_def scanRoot_def tiny_load tiny_root
      tiny_not_reused tiny_not_cached)

lemma canReuseDir_exclusions [simp]:
  "canReuseDir (scanner\<lparr>exclusions := x\<rparr>) path info showHidden
     = canReuseDir scanner path info showHidden"
  by (auto simp: canReuseDir_def cacheShowHidden_def split: option.splits sum.splits)

lemma mergeCachedSubtree_exclusions [simp]:
  "mergeCachedSubtree (scanner\<lparr>exclusions := x\<rparr>) path nodes
     = mergeCachedSubtree scanner path nodes"
  by (simp add: mergeCachedSubtree_def)

lemma Scan_error_keeps_cache:
  assumes "Scan ctx req (world, scanner0) = (Returns (res, Some err), world', scanner')"
  shows "cache scanner' = cache scanner0 \<and> scannedDirs scanner' = scannedDirs scanner0
         \<and> root scanner' = root scanner0 \<and> world' = world"
proof -
  obtain loadErr scanner1 where load: "loadCache world scanner0 = (loadErr, scanner1)"
    by (cases "loadCache world scanner0")
  have same: "cache scanner1 = cache scanner0 \<and> scannedDirs scanner1 = scannedDirs scanner0
      \<and> root scanner1 = root scanner0"
    using load by (auto simp: loadCache_def split: if_splits CacheFileState.splits)
  obtain walkErr st1 where walk: "WalkDir (visit ctx req (scanner1\<lparr>progress := OpenChan []\<rparr>)
        (cleanPath (workDir world) (RootPath req))) (lstatTree world)
        (cleanPath (workDir world) (RootPath req))
        \<lparr>wsNodes = [(cleanPath (workDir world) (RootPath req),
                     newRootNode (cleanPath (workDir world) (RootPath req)))], wsJobs = [],
         wsScannedCount = 0, wsProgress = [], wsPolls = 0\<rparr> = (walkErr, st1)"
    by (cases "WalkDir (visit ctx req (scanner1\<lparr>progress := OpenChan []\<rparr>)
        (cleanPath (workDir world) (RootPath req))) (lstatTree world)
        (cleanPath (workDir world) (RootPath req))
        \<lparr>wsNodes = [(cleanPath (workDir world) (RootPath req),
                     newRootNode (cleanPath (workDir world) (RootPath req)))], wsJobs = [],
         wsScannedCount = 0, wsProgress = [], wsPolls = 0\<rparr>")
  show ?thesis
    using assms same
    unfolding Scan_def
    by (auto simp: Let_def load walk split: if_splits prod.splits option.splits)
qed

lemma tiny_collect_cancelled:
  "fold (collectResult ''/root'')
     (worker cancelledAfterWalk (wsJobs \<lparr>wsNodes = tinyWalked, wsJobs = [(''/root/a/f1'', Inr 10)],
               wsScannedCount = 3, wsProgress = [], wsPolls = 3\<rparr>))
     (0, wsNodes \<lparr>wsNodes = tinyWalked, wsJobs = [(''/root/a/f1'', Inr 10)],
               wsScannedCount = 3, wsProgress = [], wsPolls = 3\<rparr>,
      wsProgress \<lparr>wsNodes = tinyWalked, wsJobs = [(''/root/a/f1'', Inr 10)],
               wsScannedCount = 3, wsProgress = [], wsPolls = 3\<rparr>)
     = (0, tinyWalked, [])"
  by (simp add: worker_def cancelledAfterWalk_def)

lemma tiny_passes_unsized:
  "applyDirCounts (applyFileCounts (applyAccumulation (applyHierarchy tinyWalked))) = tinyUnsized"
  by (simp add: tinyWalked_def tinyUnsized_def mkNode_def pass_defs path_defs)

lemma tiny_replace_unsized:
  "cache (replaceCache ''/root'' tinyUnsized (tinyScanner\<lparr>cacheLoaded := True, progress := OpenChan []\<rparr>))
     = tinyUnsized"
  by (simp add: replaceCache_def deleteWithin_def tinyScanner_def NewFSScanner_def tinyUnsized_def
      mkNode_def path_defs NodeDir_def NodeFile_def Let_def)

lemma slash_load: "loadCache slashWorld tinyScanner = (None, tinyScanner\<lparr>cacheLoaded := True\<rparr>)"
  by (simp add: loadCache_def slashWorld_def tinyScanner_def NewFSScanner_def)

lemma slash_root: "cleanPath (workDir slashWorld) (RootPath slashReq) = ''/''"
  by (simp add: slashWorld_def slashReq_def path_defs)

lemma slash_not_reused:
  "\<not> canReuseRoot slashWorld (tinyScanner\<lparr>cacheLoaded := True\<rparr>) ''/'' (ShowHidden slashReq)"
  by (simp add: canReuseRoot_def tinyScanner_def NewFSScanner_def)

lemma slash_not_cached: "\<not> isCached (tinyScanner\<lparr>cacheLoaded := True\<rparr>) ''/''"
  by (simp add: isCached_def tinyScanner_def NewFSScanner_def)

lemma slash_walk:
  "WalkDir (visit background slashReq (tinyScanner\<lparr>cacheLoaded := True, progress := OpenChan []\<rparr>) ''/'')
       (lstatTree slashWorld) ''/''
       \<lparr>wsNodes = [(''/'', newRootNode ''/'')], wsJobs = [],
        wsScannedCount = 0, wsProgress = [], wsPolls = 0\<rparr>
     = (None, \<lparr>wsNodes = slashWalked, wsJobs = [(''/a/f1'', Inr 10)],
               wsScannedCount = 3, wsProgress = [], wsPolls = 3\<rparr>)"
  by (simp add: WalkDir_def slashWorld_def slashTree_def slashReq_def tinyScanner_def slashWalked_def
      mkNode_def newRootNode_def path_defs visit_defs NodeDir_def NodeFile_def)

lemma slash_collect:
  "fold (collectResult ''/'')
     (worker background (wsJobs \<lparr>wsNodes = slashWalked, wsJobs = [(''/a/f1'', Inr 10)],
               wsScannedCount = 3, wsProgress = [], wsPolls = 3\<rparr>))
     (0, wsNodes \<lparr>wsNodes = slashWalked, wsJobs = [(''/a/f1'', Inr 10)],
               wsScannedCount = 3, wsProgress = [], wsPolls = 3\<rparr>,
      wsProgress \<lparr>wsNodes = slashWalked, wsJobs = [(''/a/f1'', Inr 10)],
               wsScannedCount = 3, wsProgress = [], wsPolls = 3\<rparr>)
     = (1, slashCollected, [])"
  by (simp add: collectResult_def worker_def background_def slashWalked_def slashCollected_def mkNode_def)

lemma slash_depths: "depth ''/'' = 1 \<and> depth ''/a'' = 1 \<and> depth ''/a/f1'' = 2"
  by (simp add: path_defs)

lemma slash_passes:
  "applyDirCounts (applyFileCounts (applyAccumulation (applyHierarchy slashCollected))) = slashIndex"
  by (simp add: slashCollected_def slashIndex_def mkNode_def pass_defs path_defs)

lemma slash_replace:
  "cache (replaceCache ''/'' slashIndex (tinyScanner\<lparr>cacheLoaded := True, progress := OpenChan []\<rparr>))
     = slashIndex"
  by (simp add: replaceCache_def deleteWithin_def tinyScanner_def NewFSScanner_def slashIndex_def
      mkNode_def path_defs NodeDir_def NodeFile_def Let_def)

lemma length_progressNonBlocking:
  "length buf \<le> progressCapacity \<Longrightarrow>
     length (progressNonBlocking buf msg) = min progressCapacity (Suc (length buf))"
  by (auto simp: progressNonBlocking_def)

lemma length_countVisited:
  "length (wsProgress st) \<le> progressCapacity \<Longrightarrow>
     length (wsProgress st) \<le> length (wsProgress (countVisited path st))
     \<and> length (wsProgress (countVisited path st)) \<le> progressCapacity"
  by (auto simp: countVisited_def Let_def progressNonBlocking_def)

lemma walkDir_lockedDir:
  assumes "ShowHidden req" and "cacheEntries scanner = None" and "maxDepth scanner = 0"
    and "doneAtVisit ctx = None" and "length (wsProgress st) \<le> progressCapacity"
  shows "fst (walkDir (visit ctx req scanner r) path (lockedDir name) st) = None
     \<and> min progressCapacity (Suc (length (wsProgress st)))
         \<le> length (wsProgress (snd (walkDir (visit ctx req scanner r) path (lockedDir name) st)))
     \<and> length (wsProgress (snd (walkDir (visit ctx req scanner r) path (lockedDir name) st)))
         \<le> progressCapacity
     \<and> wsJobs (snd (walkDir (visit ctx req scanner r) path (lockedDir name) st)) = wsJobs st"
proof -
  let ?node = "\<lparr>ID = path, Name = name, Path = path, Type = NodeDir,
                SizeBytes = 0, AccumBytes = 0, ModTime = ZeroTime,
                ParentID = parentPath r path, ChildrenIDs = [],
                ChildCount = 0, FileCount = 0, DirCount = 0, Scanned = True\<rparr>"
  let ?s1 = "countVisited path (st\<lparr>wsPolls := Suc (wsPolls st),
                wsNodes := AList.update path ?node (wsNodes st)\<rparr>)"
  have v1: "visit ctx req scanner r path (Inr (lockedDir name)) st = (None, ?s1)"
    using assms(1-4) by (simp add: visit_def lockedDir_def ctxErr_def canReuseDir_def Let_def)
  have l1: "length (wsProgress st) \<le> length (wsProgress ?s1)"
      "length (wsProgress ?s1) \<le> progressCapacity"
    using length_countVisited [of "st\<lparr>wsPolls := Suc (wsPolls st),
                wsNodes := AList.update path ?node (wsNodes st)\<rparr>" path] assms(5) by simp_all
  have j1: "wsJobs ?s1 = wsJobs st"
    by (simp add: countVisited_def Let_def)
  let ?msg = "\<lparr>spPath = path, spScanned = wsScannedCount ?s1, spCompleted = False,
               spErrMessage = errText ErrPermission, spCurrent = []\<rparr>"
  let ?s2 = "?s1\<lparr>wsProgress := progressNonBlocking (wsProgress ?s1) ?msg\<rparr>"
  have v2: "visit ctx req scanner r path (Inl ErrPermission) ?s1 = (None, ?s2)"
    by (simp add: visit_def isPermissionErr_def)
  have w: "walkDir (visit ctx req scanner r) path (lockedDir name) st = (None, ?s2)"
    by (simp add: lockedDir_def v1 [unfolded lockedDir_def] v2)
  have l2: "length (wsProgress ?s2) = min progressCapacity (Suc (length (wsProgress ?s1)))"
    using length_progressNonBlocking [OF l1(2)] by simp
  show ?thesis
    unfolding w using l1 l2 j1 by (simp add: min_def)
qed

lemma walkEntries_lockedDirs:
  assumes "ShowHidden req" and "cacheEntries scanner = None" and "maxDepth scanner = 0"
    and "doneAtVisit ctx = None"
  shows "length (wsProgress st) \<le> progressCapacity \<Longrightarrow>
     fst (walkEntries (visit ctx req scanner r) path (map lockedDir names) st) = None
     \<and> min progressCapacity (length (wsProgress st) + length names)
         \<le> length (wsProgress (snd (walkEntries (visit ctx req scanner r) path (map lockedDir names) st)))
     \<and> length (wsProgress (snd (walkEntries (visit ctx req scanner r) path (map lockedDir names) st)))
         \<le> progressCapacity
     \<and> wsJobs (snd (walkEntries (visit ctx req scanner r) path (map lockedDir names) st)) = wsJobs st"
proof (induction names arbitrary: st)
  case Nil
  then show ?case by simp
next
  case (Cons name names)
  let ?w = "walkDir (visit ctx req scanner r) (Join path (entryName (lockedDir name))) (lockedDir name) st"
  note d = walkDir_lockedDir [OF assms Cons.prems, of r "Join path (entryName (lockedDir name))" name]
  obtain s1 where w: "?w = (None, s1)"
    using d by (cases ?w) auto
  have s1: "min progressCapacity (Suc (length (wsProgress st))) \<le> length (wsProgress s1)"
      "length (wsProgress s1) \<le> progressCapacity" "wsJobs s1 = wsJobs st"
    using d w by simp_all
  note ih = Cons.IH [OF s1(2)]
  show ?case
    using ih s1 by (simp add: w min_def split: if_splits)
qed

lemma Scan_no_panic:
  assumes "fst (loadCache world scanner0) = None"
  shows "fst (Scan ctx req (world, scanner0)) \<noteq> Panics"
proof -
  obtain scanner1 where load: "loadCache world scanner0 = (None, scanner1)"
    using assms by (cases "loadCache world scanner0") auto
  let ?r = "cleanPath (workDir world) (RootPath req)"
  let ?w = "WalkDir (visit ctx req (scanner1\<lparr>progress := OpenChan []\<rparr>) ?r) (lstatTree world) ?r
        \<lparr>wsNodes = [(?r, newRootNode ?r)], wsJobs = [],
         wsScannedCount = 0, wsProgress = [], wsPolls = 0\<rparr>"
  obtain walkErr st1 where walk: "?w = (walkErr, st1)"
    by (cases ?w)
  show ?thesis
    unfolding Scan_def
    by (auto simp: Let_def load walk split: if_splits prod.splits option.splits)
qed

lemma locked_load: "loadCache lockedWorld tinyScanner = (None, tinyScanner\<lparr>cacheLoaded := True\<rparr>)"
  by (simp add: loadCache_def lockedWorld_def tinyScanner_def NewFSScanner_def)

lemma locked_root: "scanRoot lockedWorld showAllReq = ''/root''"
  by (simp add: scanRoot_def lockedWorld_def showAllReq_def path_defs)

lemma locked_scanner:
  "scannerLoaded lockedWorld tinyScanner = tinyScanner\<lparr>cacheLoaded := True, progress := OpenChan []\<rparr>"
  by (simp add: scannerLoaded_def locked_load)

lemma locked_walks: "walksFilesystem lockedWorld tinyScanner showAllReq"
  unfolding walksFilesystem_def locked_scanner locked_root
  by (simp add: canReuseRoot_def isCached_def tinyScanner_def NewFSScanner_def)

lemma locked_walk:
  "fst (scanWalk background showAllReq lockedWorld tinyScanner) = None
   \<and> progressCapacity \<le> length (wsProgress (snd (scanWalk background showAllReq lockedWorld tinyScanner)))
   \<and> wsJobs (snd (scanWalk background showAllReq lockedWorld tinyScanner)) = []"
proof -
  let ?sc = "tinyScanner\<lparr>cacheLoaded := True, progress := OpenChan []\<rparr>"
  let ?st0 = "\<lparr>wsNodes = [(''/root'', newRootNode ''/root'')], wsJobs = [],
        wsScannedCount = 0, wsProgress = [], wsPolls = 0\<rparr>"
  have sh: "ShowHidden showAllReq" by (simp add: showAllReq_def)
  have ce: "cacheEntries ?sc = None" "maxDepth ?sc = 0"
    by (simp_all add: tinyScanner_def NewFSScanner_def)
  have bg: "doneAtVisit background = None" by (simp add: background_def)
  obtain s1 where v: "visit background showAllReq ?sc ''/root'' ''/root''
      (Inr (FsDir ''root'' (Inr 100) (map lockedDir lockedNames) None)) ?st0 = (None, s1)"
    and s1: "wsProgress s1 = []" "wsJobs s1 = []"
    using sh ce bg
    by (simp add: visit_def ctxErr_def canReuseDir_def Let_def countVisited_def)
  have len: "length (wsProgress s1) \<le> progressCapacity"
    by (simp add: s1)
  note e = walkEntries_lockedDirs [OF sh ce bg len, of "''/root''" "''/root''" lockedNames]
  have n: "length lockedNames = 64"
    by (simp add: lockedNames_def)
  have lt: "lstatTree lockedWorld ''/root''
      = Inr (FsDir ''root'' (Inr 100) (map lockedDir lockedNames) None)"
    by (simp add: lockedWorld_def)
  have w: "scanWalk background showAllReq lockedWorld tinyScanner =
      (case walkEntries (visit background showAllReq ?sc ''/root'') ''/root'' (map lockedDir lockedNames) s1 of
         (Some err, st1) \<Rightarrow> (if err = SkipDir then None else Some err, st1)
       | (None, st1) \<Rightarrow> (None, st1))"
    unfolding scanWalk_def locked_scanner locked_root WalkDir_def lt
    by (simp add: v split: prod.splits option.splits)
  show ?thesis
    unfolding w using e n s1
    by (auto simp: progressCapacity_def split: prod.splits option.splits)
qed

lemmas action_defs = Execute_def normalizePaths_def validateRequest_def isCriticalPath_def
  requireConfirmation_def deletePaths_def backupPaths_def backupCopy_def backupCompressed_def
  backupFailed_def emptyResult_def exists_def ActionDelete_def ActionMove_def ActionCopy_def
  ActionBackup_def actionProgressNonBlocking_def progressMsg_def HasSuffix_def NewFSActions_def

lemmas table_defs = tableOS_def tableStat_def dataFs_def deleteDirReq_def backupReq_def

lemma confirmLoop_recursive [simp]: "confirmLoop lstat ''confirm-recursive'' paths = None"
  by (induction paths) (auto split: sum.splits)

lemmas splice_defs = mkNode_def mkCached_def mkEntry_def oldEntries_def savedEntries_def zeroNano_def
  NodeDir_def NodeFile_def

lemma splice_load: "loadCache spliceWorld tinyScanner = (None, spliceLoaded)"
  by (simp add: loadCache_def spliceWorld_def spliceLoaded_def tinyScanner_def NewFSScanner_def
      cacheVersion_def)

lemma splice_root: "cleanPath (workDir spliceWorld) (RootPath tinyReq) = ''/root''"
  by (simp add: spliceWorld_def tinyReq_def path_defs)

lemma splice_not_reused: "\<not> canReuseRoot spliceWorld spliceLoaded ''/root'' (ShowHidden tinyReq)"
  by (simp add: canReuseRoot_def spliceLoaded_def oldEntries_def)

lemma splice_not_cached: "\<not> isCached spliceLoaded ''/root''"
  by (simp add: isCached_def spliceLoaded_def tinyScanner_def NewFSScanner_def)

lemma splice_walk:
  "WalkDir (visit background tinyReq (spliceLoaded\<lparr>progress := OpenChan []\<rparr>) ''/root'')
       (lstatTree spliceWorld) ''/root''
       \<lparr>wsNodes = [(''/root'', newRootNode ''/root'')], wsJobs = [],
        wsScannedCount = 0, wsProgress = [], wsPolls = 0\<rparr>
     = (None, \<lparr>wsNodes = spliceWalked, wsJobs = [],
               wsScannedCount = 1, wsProgress = [spliceMsg], wsPolls = 2\<rparr>)"
  by (simp add: WalkDir_def spliceWorld_def tinyTree_def tinyReq_def spliceLoaded_def tinyScanner_def
      spliceWalked_def spliceMsg_def newRootNode_def path_defs visit_defs splice_defs)

lemma splice_collect:
  "fold (collectResult ''/root'')
     (worker background (wsJobs \<lparr>wsNodes = spliceWalked, wsJobs = [],
               wsScannedCount = 1, wsProgress = [spliceMsg], wsPolls = 2\<rparr>))
     (0, wsNodes \<lparr>wsNodes = spliceWalked, wsJobs = [],
               wsScannedCount = 1, wsProgress = [spliceMsg], wsPolls = 2\<rparr>,
      wsProgress \<lparr>wsNodes = spliceWalked, wsJobs = [],
               wsScannedCount = 1, wsProgress = [spliceMsg], wsPolls = 2\<rparr>)
     = (0, spliceWalked, [spliceMsg])"
  by (simp add: worker_def background_def)

lemma splice_passes:
  "applyDirCounts (applyFileCounts (applyAccumulation (applyHierarchy spliceWalked))) = spliceIndex"
  by (simp add: spliceWalked_def spliceIndex_def splice_defs pass_defs path_defs)

lemma splice_replace:
  "cache (replaceCache ''/root'' spliceIndex (spliceLoaded\<lparr>progress := OpenChan []\<rparr>)) = spliceIndex"
  by (simp add: replaceCache_def deleteWithin_def spliceLoaded_def tinyScanner_def NewFSScanner_def
      spliceIndex_def splice_defs path_defs Let_def)

lemma splice_save:
  "saveCache spliceIndex (ShowHidden tinyReq)
     (replaceCache ''/root'' spliceIndex (spliceLoaded\<lparr>progress := OpenChan []\<rparr>)) spliceWorld
     = spliceWorld2"
  by (simp add: saveCache_def replaceCache_def Let_def spliceLoaded_def tinyScanner_def NewFSScanner_def
      spliceWorld_def spliceWorld2_def tinyReq_def spliceIndex_def entryOfNode_def UnixNano_def
      cacheVersion_def splice_defs)

lemma splice_scan:
  "fst (Scan background tinyReq (spliceWorld, tinyScanner)) = Returns (\<lparr>resRootPath = ''/root''\<rparr>, None)
   \<and> fst (snd (Scan background tinyReq (spliceWorld, tinyScanner))) = spliceWorld2
   \<and> cache (snd (snd (Scan background tinyReq (spliceWorld, tinyScanner)))) = spliceIndex"
proof -
  note run = Scan_walk_path [OF splice_load refl splice_root [symmetric] splice_not_reused
      splice_not_cached splice_walk splice_collect splice_passes]
  show ?thesis
    unfolding run by (simp add: progressCapacity_def splice_replace splice_save)
qed

lemma splice2_load: "loadCache spliceWorld2 tinyScanner = (None, spliceLoaded2)"
  by (simp add: loadCache_def spliceWorld2_def spliceWorld_def spliceLoaded2_def tinyScanner_def
      NewFSScanner_def cacheVersion_def)

lemma splice2_root: "cleanPath (workDir spliceWorld2) (RootPath tinyReq) = ''/root''"
  by (simp add: spliceWorld2_def spliceWorld_def tinyReq_def path_defs)

lemma splice2_not_reused: "\<not> canReuseRoot spliceWorld2 spliceLoaded2 ''/root'' (ShowHidden tinyReq)"
  by (simp add: canReuseRoot_def spliceLoaded2_def spliceWorld2_def spliceWorld_def
      cacheShowHidden_def tinyReq_def splice_defs)

lemma splice2_not_cached: "\<not> isCached spliceLoaded2 ''/root''"
  by (simp add: isCached_def spliceLoaded2_def tinyScanner_def NewFSScanner_def)

lemma splice2_walk:
  "WalkDir (visit background tinyReq (spliceLoaded2\<lparr>progress := OpenChan []\<rparr>) ''/root'')
       (lstatTree spliceWorld2) ''/root''
       \<lparr>wsNodes = [(''/root'', newRootNode ''/root'')], wsJobs = [],
        wsScannedCount = 0, wsProgress = [], wsPolls = 0\<rparr>
     = (None, \<lparr>wsNodes = spliceWalked2, wsJobs = [],
               wsScannedCount = 1, wsProgress = [spliceMsg], wsPolls = 2\<rparr>)"
  by (simp add: WalkDir_def spliceWorld2_def spliceWorld_def tinyTree_def tinyReq_def spliceLoaded2_def
      tinyScanner_def spliceWalked2_def spliceMsg_def newRootNode_def path_defs visit_defs splice_defs)

lemma splice2_collect:
  "fold (collectResult ''/root'')
     (worker background (wsJobs \<lparr>wsNodes = spliceWalked2, wsJobs = [],
               wsScannedCount = 1, wsProgress = [spliceMsg], wsPolls = 2\<rparr>))
     (0, wsNodes \<lparr>wsNodes = spliceWalked2, wsJobs = [],
               wsScannedCount = 1, wsProgress = [spliceMsg], wsPolls = 2\<rparr>,
      wsProgress \<lparr>wsNodes = spliceWalked2, wsJobs = [],
               wsScannedCount = 1, wsProgress = [spliceMsg], wsPolls = 2\<rparr>)
     = (0, spliceWalked2, [spliceMsg])"
  by (simp add: worker_def background_def)

lemma splice2_passes:
  "applyDirCounts (applyFileCounts (applyAccumulation (applyHierarchy spliceWalked2))) = spliceIndex2"
  by (simp add: spliceWalked2_def spliceIndex2_def splice_defs pass_defs path_defs)

lemma splice2_replace:
  "cache (replaceCache ''/root'' spliceIndex2 (spliceLoaded2\<lparr>progress := OpenChan []\<rparr>)) = spliceIndex2"
  by (simp add: replaceCache_def deleteWithin_def spliceLoaded2_def tinyScanner_def NewFSScanner_def
      spliceIndex2_def splice_defs path_defs Let_def)

lemma splice2_scan:
  "fst (Scan background tinyReq (spliceWorld2, tinyScanner)) = Returns (\<lparr>resRootPath = ''/root''\<rparr>, None)
   \<and> cache (snd (snd (Scan background tinyReq (spliceWorld2, tinyScanner)))) = spliceIndex2"
proof -
  note run = Scan_walk_path [OF splice2_load refl splice2_root [symmetric] splice2_not_reused
      splice2_not_cached splice2_walk splice2_collect splice2_passes]
  show ?thesis
    unfolding run by (simp add: progressCapacity_def splice2_replace)
qed

subsection \<open>The scan of the filesystem root, and what a scan stores\<close>

lemma slash_scan:
  "fst (Scan background slashReq (slashWorld, tinyScanner)) = Returns (\<lparr>resRootPath = ''/''\<rparr>, None)
   \<and> cache (snd (snd (Scan background slashReq (slashWorld, tinyScanner)))) = slashIndex"
proof -
  note run = Scan_walk_path [OF slash_load refl slash_root [symmetric] slash_not_reused
      slash_not_cached slash_walk slash_collect slash_passes]
  show ?thesis
    unfolding run by (simp add: progressCapacity_def slash_replace)
qed

lemma slash_walks: "walksFilesystem slashWorld tinyScanner slashReq"
  by (simp add: walksFilesystem_def scannerLoaded_def scanRoot_def slash_load slash_root
      slash_not_reused slash_not_cached)

lemma slash_index: "scanIndex background slashReq slashWorld tinyScanner = slashIndex"
proof -
  have w: "scanWalk background slashReq slashWorld tinyScanner
      = WalkDir (visit background slashReq (tinyScanner\<lparr>cacheLoaded := True, progress := OpenChan []\<rparr>) ''/'')
       (lstatTree slashWorld) ''/''
       \<lparr>wsNodes = [(''/'', newRootNode ''/'')], wsJobs = [],
        wsScannedCount = 0, wsProgress = [], wsPolls = 0\<rparr>"
    by (simp add: scanWalk_def scannerLoaded_def scanRoot_def slash_load slash_root)
  have c: "fold (collectResult ''/'') (worker background [(''/a/f1'', Inr 10)]) (0, slashWalked, [])
      = (1, slashCollected, [])"
    using slash_collect by simp
  show ?thesis
    unfolding scanIndex_def scanCollected_def Let_def w slash_walk
    by (simp add: scanRoot_def slash_root c slash_passes)
qed

lemma Scan_stores_index:
  assumes walks: "walksFilesystem world scanner0 req"
    and outcome: "fst (Scan ctx req (world, scanner0)) = Returns (res, None)
        \<or> fst (Scan ctx req (world, scanner0)) = Blocks"
  shows "cache (snd (snd (Scan ctx req (world, scanner0)))) =
      cache (replaceCache (scanRoot world req) (scanIndex ctx req world scanner0)
               (scannerLoaded world scanner0))"
proof -
  have np: "fst (Scan ctx req (world, scanner0)) \<noteq> Panics"
    using outcome by auto
  note st = Scan_stages [OF walks np]
  have "fst (scanWalk ctx req world scanner0) = None"
    using outcome unfolding st by (auto simp: Let_def split: option.splits if_splits)
  then show ?thesis
    unfolding st by (simp add: Let_def)
qed

section \<open>A file whose size never arrives\<close>

text \<open>The collector leaves a node alone when its job failed, and every other node when it did not.\<close>

lemma collectResult_other:
  "fst result \<noteq> p \<Longrightarrow>
     map_of (fst (snd (collectResult r result acc))) p = map_of (fst (snd acc)) p"
  by (cases acc) (auto simp: collectResult_def Let_def AList.update_conv' split: option.splits sum.splits)

lemma collectResult_failed:
  "isl (snd result) \<Longrightarrow> fst (snd (collectResult r result acc)) = fst (snd acc)"
  by (cases acc) (auto simp: collectResult_def Let_def split: option.splits sum.splits)

lemma collect_keeps_unmeasured:
  assumes "\<forall>res. (p, res) \<in> set jobs \<longrightarrow> isl res"
  shows "map_of (fst (snd (fold (collectResult r) jobs acc))) p = map_of (fst (snd acc)) p"
  using assms
proof (induction jobs arbitrary: acc)
  case Nil
  then show ?case by simp
next
  case (Cons job jobs)
  have rest: "\<forall>res. (p, res) \<in> set jobs \<longrightarrow> isl res"
    using Cons.prems by simp
  have step: "map_of (fst (snd (collectResult r job acc))) p = map_of (fst (snd acc)) p"
  proof (cases "fst job = p")
    case True
    then have "isl (snd job)" using Cons.prems by (cases job) auto
    then show ?thesis by (simp add: collectResult_failed)
  next
    case False
    then show ?thesis by (simp add: collectResult_other)
  qed
  show ?case
    using Cons.IH [OF rest, of "collectResult r job acc"] step by simp
qed

text \<open>A file node without a size keeps an accumulated size of 0 through the passes.\<close>

lemma applyHierarchy_unsized:
  assumes "map_of m k = Some n" and "unsizedFile n"
  shows "\<exists>n'. map_of (applyHierarchy m) k = Some n' \<and> unsizedFile n'"
  unfolding applyHierarchy_def
proof (rule fold_keeps [where P = unsizedFile, OF _ assms])
  fix p m n
  assume a: "map_of m k = Some n" "unsizedFile n"
  from attachToParent_keeps [OF a(1), of p] obtain n' where
    n': "map_of (attachToParent p m) k = Some n'"
      "n' = n\<lparr>ChildrenIDs := ChildrenIDs n', ChildCount := ChildCount n'\<rparr>"
    by blast
  have "unsizedFile n'"
    using a(2) by (subst n'(2)) (simp add: unsizedFile_def)
  with n'(1) show "\<exists>n'. map_of (attachToParent p m) k = Some n' \<and> unsizedFile n'"
    by blast
qed

lemma applyAccumulation_unsized:
  assumes "map_of m k = Some n" and "unsizedFile n"
  shows "\<exists>n'. map_of (applyAccumulation m) k = Some n' \<and> unsizedFile n'"
  unfolding applyAccumulation_def
  by (rule fold_keeps [where P = unsizedFile, OF _ assms])
    (auto simp: accumulateNode_lookup unsizedFile_def)

lemma applyFileCounts_unsized:
  assumes "map_of m k = Some n" and "unsizedFile n"
  shows "\<exists>n'. map_of (applyFileCounts m) k = Some n' \<and> unsizedFile n' \<and> FileCount n' = 1"
  unfolding applyFileCounts_def
proof (rule fold_establishes [where P = unsizedFile
        and Q = "\<lambda>n. unsizedFile n \<and> FileCount n = 1"])
  show "k \<in> set (sortByDepth (map fst m))"
    using assms(1) by (simp add: in_sortByDepth)
qed (use assms in \<open>auto simp: countFilesNode_lookup unsizedFile_def\<close>)

lemma applyDirCounts_unsized:
  assumes "map_of m k = Some n" and "unsizedFile n \<and> FileCount n = 1"
  shows "\<exists>n'. map_of (applyDirCounts m) k = Some n' \<and> unsizedFile n' \<and> FileCount n' = 1
           \<and> DirCount n' = 0"
  unfolding applyDirCounts_def
proof (rule fold_establishes [where P = "\<lambda>n. unsizedFile n \<and> FileCount n = 1"
        and Q = "\<lambda>n. unsizedFile n \<and> FileCount n = 1 \<and> DirCount n = 0"])
  show "k \<in> set (sortByDepth (map fst m))"
    using assms(1) by (simp add: in_sortByDepth)
qed (use assms in \<open>auto simp: countDirsNode_lookup unsizedFile_def\<close>)

lemma passes_unsized:
  assumes "map_of m k = Some n" and "unsizedFile n"
  shows "\<exists>n'. map_of (applyDirCounts (applyFileCounts (applyAccumulation (applyHierarchy m)))) k = Some n'
           \<and> unsizedFile n' \<and> FileCount n' = 1 \<and> DirCount n' = 0"
proof -
  from applyHierarchy_unsized [OF assms] obtain n1 where
    n1: "map_of (applyHierarchy m) k = Some n1" "unsizedFile n1" by blast
  from applyAccumulation_unsized [OF n1] obtain n2 where
    n2: "map_of (applyAccumulation (applyHierarchy m)) k = Some n2" "unsizedFile n2" by blast
  from applyFileCounts_unsized [OF n2] obtain n3 where
    n3: "map_of (applyFileCounts (applyAccumulation (applyHierarchy m))) k = Some n3"
      "unsizedFile n3 \<and> FileCount n3 = 1" by blast
  from applyDirCounts_unsized [OF n3] show ?thesis .
qed

lemma replaceCache_stored:
  assumes "distinct (map fst nodes)" and "map_of nodes k = Some n0"
  shows "\<exists>n. map_of (cache (replaceCache r nodes scanner)) k = Some n
            \<and> n = n0\<lparr>ChildrenIDs := ChildrenIDs n, ChildCount := ChildCount n\<rparr>"
proof -
  define stored where
    "stored = fold (\<lambda>(key, node) acc. AList.update key node acc) nodes (deleteWithin r (cache scanner))"
  have st: "map_of stored k = Some n0"
    using assms by (simp add: stored_def map_of_fold_update)
  show ?thesis
    unfolding replaceCache_def Let_def stored_def [symmetric]
    using st by (auto simp: AList.update_conv' split: option.splits)
qed

subsection \<open>Clean absolute paths\<close>

lemma splitSep_plain:
  "CHR ''/'' \<notin> set w \<Longrightarrow> splitSep w = [w]"
  by (induction w) auto

lemma splitSep_plain_sep:
  "CHR ''/'' \<notin> set w \<Longrightarrow> splitSep (w @ CHR ''/'' # rest) = w # splitSep rest"
  by (induction w) auto

lemma splitSep_no_sep: "w \<in> set (splitSep s) \<Longrightarrow> CHR ''/'' \<notin> set w"
  by (induction s arbitrary: w rule: splitSep.induct) (auto split: list.splits if_splits)

lemma splitSep_joinSep:
  "list_all plainName cs \<Longrightarrow> cs \<noteq> [] \<Longrightarrow> splitSep (joinSep cs) = cs"
  by (induction cs rule: joinSep.induct)
    (auto simp: plainName_def Separator_def splitSep_plain splitSep_plain_sep)

lemma fold_cleanElem_plain:
  "list_all plainName cs \<Longrightarrow> fold (cleanElem r) cs stack = rev cs @ stack"
  by (induction cs arbitrary: stack) (auto simp: plainName_def)

lemma fold_cleanElem_rooted:
  "list_all plainName stack \<Longrightarrow> \<forall>w\<in>set ws. CHR ''/'' \<notin> set w
     \<Longrightarrow> list_all plainName (fold (cleanElem True) ws stack)"
  by (induction ws arbitrary: stack)
    (auto simp: plainName_def Separator_def split: list.splits)

lemma Clean_absolute:
  assumes "list_all plainName cs"
  shows "Clean (CHR ''/'' # joinSep cs) = CHR ''/'' # joinSep cs"
proof (cases "cs = []")
  case True
  then show ?thesis by (simp add: Clean_def)
next
  case False
  then show ?thesis
    using assms by (simp add: Clean_def splitSep_joinSep fold_cleanElem_plain)
qed

lemma cleanAbs_components:
  assumes "cleanAbs p"
  shows "\<exists>cs. list_all plainName cs \<and> p = CHR ''/'' # joinSep cs"
proof -
  from assms obtain t where p: "p = CHR ''/'' # t" and c: "Clean p = p"
    by (cases p) (auto simp: cleanAbs_def HasPrefix_def)
  let ?cs = "rev (fold (cleanElem True) (splitSep p) [])"
  have "list_all plainName (fold (cleanElem True) (splitSep p) [])"
    by (rule fold_cleanElem_rooted) (auto dest: splitSep_no_sep)
  then have "list_all plainName ?cs"
    by (simp add: list_all_iff)
  moreover have "p = CHR ''/'' # joinSep ?cs"
    using c p by (simp add: Clean_def)
  ultimately show ?thesis by blast
qed

lemma joinSep_snoc:
  "cs \<noteq> [] \<Longrightarrow> joinSep (cs @ [m]) = joinSep cs @ CHR ''/'' # m"
proof (induction cs rule: joinSep.induct)
  case (3 w v ws)
  then show ?case by (cases "ws @ [m]") auto
qed auto

lemma Join_plain:
  assumes "cleanAbs p" and "plainName m"
  shows "Join p m = childPrefix p @ m" and "cleanAbs (childPrefix p @ m)"
proof -
  from cleanAbs_components [OF assms(1)] obtain cs where
    cs: "list_all plainName cs" "p = CHR ''/'' # joinSep cs" by blast
  have all: "list_all plainName (cs @ [m])"
    using cs(1) assms(2) by simp
  have eq: "childPrefix p @ m = CHR ''/'' # joinSep (cs @ [m])"
  proof (cases cs)
    case Nil
    then show ?thesis using cs(2) by (simp add: childPrefix_def)
  next
    case (Cons c cs')
    then have "joinSep cs \<noteq> []"
      using cs(1) by (cases cs') (auto simp: plainName_def)
    moreover have "joinSep (cs @ [m]) = joinSep cs @ CHR ''/'' # m"
      using Cons by (intro joinSep_snoc) simp
    ultimately show ?thesis
      using cs(2) by (simp add: childPrefix_def Separator_def)
  qed
  show "cleanAbs (childPrefix p @ m)"
    unfolding eq using Clean_absolute [OF all] by (simp add: cleanAbs_def HasPrefix_def)
  show "Join p m = childPrefix p @ m"
  proof (cases cs)
    case Nil
    then have "p = ''/''" using cs(2) by simp
    then show ?thesis
      using assms(2)
      by (simp add: Join_def Clean_def childPrefix_def splitSep_plain plainName_def Separator_def)
  next
    case (Cons c cs')
    then have ne: "joinSep cs \<noteq> []"
      using cs(1) by (cases cs') (auto simp: plainName_def)
    have "joinSep (cs @ [m]) = joinSep cs @ CHR ''/'' # m"
      using Cons by (intro joinSep_snoc) simp
    then have "p @ CHR ''/'' # m = CHR ''/'' # joinSep (cs @ [m])"
      using cs(2) by simp
    then have "Clean (p @ CHR ''/'' # m) = p @ CHR ''/'' # m"
      using Clean_absolute [OF all] by simp
    then show ?thesis
      using cs(2) ne by (simp add: Join_def childPrefix_def Separator_def)
  qed
qed

subsection \<open>Paths below a directory\<close>

lemma childPrefix_child:
  "m \<noteq> [] \<Longrightarrow> childPrefix (childPrefix p @ m) = childPrefix p @ m @ [Separator]"
  by (auto simp: childPrefix_def Separator_def append_eq_Cons_conv)

lemma under_child:
  "m \<noteq> [] \<Longrightarrow> under (childPrefix p @ m) q \<Longrightarrow> under p q"
  by (auto simp: under_def childPrefix_child) (auto simp: prefix_def)

lemma prefix_component:
  "sep \<notin> set a \<Longrightarrow> sep \<notin> set b \<Longrightarrow> prefix (a @ [sep]) (b @ sep # t) \<Longrightarrow> a = b"
proof (induction a arbitrary: b)
  case Nil
  then show ?case by (cases b) auto
next
  case (Cons x a)
  then show ?case by (cases b) auto
qed

lemma under_siblings:
  assumes "plainName m1" and "plainName m2" and "m1 \<noteq> m2"
    and "under (childPrefix p @ m1) q" and "under (childPrefix p @ m2) q"
  shows False
proof -
  have s1: "Separator \<notin> set m1" and s2: "Separator \<notin> set m2" and n1: "m1 \<noteq> []" and n2: "m2 \<noteq> []"
    using assms(1,2) by (auto simp: plainName_def)
  have inside: False if "prefix (childPrefix p @ a @ [Separator]) (childPrefix p @ b)"
    and "Separator \<notin> set b" for a b
  proof -
    from that(1) have "prefix (a @ [Separator]) b" by simp
    then have "Separator \<in> set b" by (auto simp: prefix_def)
    with that(2) show False by simp
  qed
  have both: "a = b" if "prefix (childPrefix p @ a @ [Separator]) q"
    and "prefix (childPrefix p @ b @ [Separator]) q"
    and "Separator \<notin> set a" and "Separator \<notin> set b" for a b
  proof -
    from that(2) obtain t where q: "q = childPrefix p @ b @ Separator # t"
      by (auto simp: prefix_def)
    from that(1) have "prefix (a @ [Separator]) (b @ Separator # t)"
      unfolding q by simp
    from prefix_component [OF that(3,4) this] show ?thesis .
  qed
  from assms(4,5) show False
    unfolding under_def childPrefix_child [OF n1] childPrefix_child [OF n2]
    using assms(3) inside [of m1 m2] inside [of m2 m1] both [of m1 m2] s1 s2
    by auto
qed

lemma not_under_child:
  "m \<noteq> [] \<Longrightarrow> \<not> under (childPrefix p @ m) p"
  by (auto simp: under_def childPrefix_child) (auto simp: childPrefix_def prefix_def split: if_splits)

lemma hasPathPrefix_under:
  "hasPathPrefix p k \<Longrightarrow> under p k"
  by (auto simp: hasPathPrefix_def under_def childPrefix_def HasPrefix_def Let_def Separator_def
      prefix_def split: if_splits)

subsection \<open>What a walk adds\<close>

lemma walkedWithin_refl: "walkedWithin region st st"
  by (simp add: walkedWithin_def)

lemma walkedWithin_mono:
  "walkedWithin r st st' \<Longrightarrow> (\<And>q. r q \<Longrightarrow> r' q) \<Longrightarrow> walkedWithin r' st st'"
  unfolding walkedWithin_def by (elim exE conjE, rule_tac x = js in exI) auto

lemma walkedWithin_same:
  "walkedWithin r st st1 \<Longrightarrow> wsJobs st2 = wsJobs st1 \<Longrightarrow> wsNodes st2 = wsNodes st1
     \<Longrightarrow> walkedWithin r st st2"
  by (simp add: walkedWithin_def)

lemma walkedWithin_trans:
  assumes "walkedWithin r1 st st1" and "walkedWithin r2 st1 st2"
    and disj: "\<And>q. r1 q \<Longrightarrow> r2 q \<Longrightarrow> False"
  shows "walkedWithin (\<lambda>q. r1 q \<or> r2 q) st st2"
proof -
  from assms(1) obtain js1 where j1: "wsJobs st1 = wsJobs st @ js1" "distinct (map fst js1)"
    "\<forall>job\<in>set js1. r1 (fst job) \<and> unmeasuredAt (wsNodes st1) (fst job)"
    "\<forall>k. \<not> r1 k \<longrightarrow> map_of (wsNodes st1) k = map_of (wsNodes st) k"
    unfolding walkedWithin_def by blast
  from assms(2) obtain js2 where j2: "wsJobs st2 = wsJobs st1 @ js2" "distinct (map fst js2)"
    "\<forall>job\<in>set js2. r2 (fst job) \<and> unmeasuredAt (wsNodes st2) (fst job)"
    "\<forall>k. \<not> r2 k \<longrightarrow> map_of (wsNodes st2) k = map_of (wsNodes st1) k"
    unfolding walkedWithin_def by blast
  have "wsJobs st2 = wsJobs st @ (js1 @ js2)"
    using j1(1) j2(1) by simp
  moreover have "distinct (map fst (js1 @ js2))"
  proof -
    have "fst ` set js1 \<inter> fst ` set js2 = {}"
      using j1(3) j2(3) disj by fastforce
    then show ?thesis
      using j1(2) j2(2) by simp
  qed
  moreover have "\<forall>job\<in>set (js1 @ js2). (r1 (fst job) \<or> r2 (fst job)) \<and> unmeasuredAt (wsNodes st2) (fst job)"
  proof
    fix job assume "job \<in> set (js1 @ js2)"
    then consider "job \<in> set js1" | "job \<in> set js2" by auto
    then show "(r1 (fst job) \<or> r2 (fst job)) \<and> unmeasuredAt (wsNodes st2) (fst job)"
    proof cases
      case 1
      then have r: "r1 (fst job)" and u: "unmeasuredAt (wsNodes st1) (fst job)"
        using j1(3) by auto
      from r disj have "\<not> r2 (fst job)" by blast
      then have "map_of (wsNodes st2) (fst job) = map_of (wsNodes st1) (fst job)"
        using j2(4) by simp
      with r u show ?thesis by (simp add: unmeasuredAt_def)
    next
      case 2
      then show ?thesis using j2(3) by auto
    qed
  qed
  moreover have "\<forall>k. \<not> (r1 k \<or> r2 k) \<longrightarrow> map_of (wsNodes st2) k = map_of (wsNodes st) k"
    using j1(4) j2(4) by simp
  ultimately show ?thesis
    unfolding walkedWithin_def by blast
qed

lemma mergeEntries_outside:
  "\<not> under path k \<Longrightarrow> map_of (mergeEntries path entries nodes) k = map_of nodes k"
  unfolding mergeEntries_def
  by (induction entries arbitrary: nodes)
    (auto simp: AList.update_conv' dest: hasPathPrefix_under)

lemma mergeCachedSubtree_outside:
  "\<not> under path k \<Longrightarrow> map_of (mergeCachedSubtree scanner path nodes) k = map_of nodes k"
  by (simp add: mergeCachedSubtree_def mergeEntries_outside split: option.splits)

lemma wsJobs_countVisited [simp]: "wsJobs (countVisited path st) = wsJobs st"
  by (simp add: countVisited_def Let_def)

lemma wsNodes_countVisited [simp]: "wsNodes (countVisited path st) = wsNodes st"
  by (simp add: countVisited_def Let_def)

lemma under_self [simp]: "under p p"
  by (simp add: under_def)

lemma visit_error_walked:
  assumes "visit ctx req scanner rootPath path (Inl e) st = (err, st')"
  shows "wsJobs st' = wsJobs st \<and> wsNodes st' = wsNodes st"
  using assms by (auto simp: visit_def split: if_splits)

lemma visit_file_walked:
  assumes "visit ctx req scanner rootPath path (Inr (FsFile name lstat)) st = (err, st')"
  shows "walkedWithin (\<lambda>q. q = path) st st'"
proof -
  consider (same) "wsJobs st' = wsJobs st" "wsNodes st' = wsNodes st"
    | (new) n where "wsJobs st' = wsJobs st @ [(path, lstat)]"
        "wsNodes st' = AList.update path n (wsNodes st)" "unsizedFile n"
    using assms
    by (auto simp: visit_def Let_def skipOrNil_def unsizedFile_def split: if_splits)
  then show ?thesis
  proof cases
    case same
    then show ?thesis by (simp add: walkedWithin_def)
  next
    case new
    show ?thesis
      unfolding walkedWithin_def
      by (rule exI [of _ "[(path, lstat)]"])
        (simp add: new unmeasuredAt_def AList.update_conv')
  qed
qed

lemma visit_dir_walked:
  assumes "visit ctx req scanner rootPath path (Inr (FsDir name info entries readErr)) st = (err, st')"
  shows "wsJobs st' = wsJobs st"
    and "\<forall>k. \<not> under path k \<longrightarrow> map_of (wsNodes st') k = map_of (wsNodes st) k"
    and "err = None \<longrightarrow> (\<forall>k. k \<noteq> path \<longrightarrow> map_of (wsNodes st') k = map_of (wsNodes st) k)"
  using assms
  by (auto simp: visit_def Let_def skipOrNil_def mergeCachedSubtree_outside AList.update_conv'
      split: if_splits)

lemma visit_visitStep:
  "visitStep p a s (visit ctx req scanner rootPath p a s)"
proof (cases "visit ctx req scanner rootPath p a s")
  case (Pair err s')
  show ?thesis
  proof (cases a)
    case (Inl e)
    then show ?thesis
      using visit_error_walked [of ctx req scanner rootPath p e s err s'] Pair
      by (simp add: visitStep_def)
  next
    case (Inr entry)
    show ?thesis
    proof (cases entry)
      case (FsFile name lstat)
      then show ?thesis
        using visit_file_walked [of ctx req scanner rootPath p name lstat s err s'] Pair Inr
        by (simp add: visitStep_def)
    next
      case (FsDir name info entries readErr)
      note d = visit_dir_walked [of ctx req scanner rootPath p name info entries readErr s err s']
      have v: "visit ctx req scanner rootPath p (Inr (FsDir name info entries readErr)) s = (err, s')"
        using Pair Inr FsDir by simp
      have "walkedWithin (under p) s s'"
        unfolding walkedWithin_def using d(1,2) [OF v] by simp
      moreover have "walkedWithin (\<lambda>q. q = p) s s'" if "err = None"
        unfolding walkedWithin_def using d(1,3) [OF v] that by simp
      ultimately show ?thesis
        using Pair Inr FsDir d(1) [OF v] by (simp add: visitStep_def)
    qed
  qed
qed

lemma wellFormedEntries_plain:
  "wellFormedEntries es \<Longrightarrow> m \<in> set (map entryName es) \<Longrightarrow> plainName m"
  by (induction es) auto

lemma walk_walkedWithin:
  "(\<And>p a s. visitStep p a s (fn p a s)) \<Longrightarrow> cleanAbs path \<Longrightarrow> wellFormed entry
     \<Longrightarrow> walkedWithin (under path) st (snd (walkDir fn path entry st))"
  "(\<And>p a s. visitStep p a s (fn p a s)) \<Longrightarrow> cleanAbs path \<Longrightarrow> wellFormedEntries entries
     \<Longrightarrow> walkedWithin (\<lambda>q. \<exists>m\<in>set (map entryName entries). under (childPrefix path @ m) q)
           st (snd (walkEntries fn path entries st))"
proof (induction fn path entry st and fn path entries st rule: walkDir_walkEntries.induct)
  case (1 fn path name lstat st)
  have "walkedWithin (\<lambda>q. q = path) st (snd (fn path (Inr (FsFile name lstat)) st))"
    using "1.prems"(1) [of path "Inr (FsFile name lstat)" st] by (simp add: visitStep_def)
  then show ?case
    by (simp add: walkedWithin_mono)
next
  case (2 fn path name info entries readErr st)
  note step = "2.prems"(1)
  obtain e1 s1 where v1: "fn path (Inr (FsDir name info entries readErr)) st = (e1, s1)"
    by (cases "fn path (Inr (FsDir name info entries readErr)) st")
  have d: "walkedWithin (under path) st s1" "e1 = None \<longrightarrow> walkedWithin (\<lambda>q. q = path) st s1"
    using step [of path "Inr (FsDir name info entries readErr)" st] v1
    by (simp_all add: visitStep_def)
  show ?case
  proof (cases e1)
    case (Some err)
    then show ?thesis using v1 d(1) by simp
  next
    case None
    obtain e2 s2 where
      v2: "(case readErr of None \<Rightarrow> (None, s1) | Some err \<Rightarrow> fn path (Inl err) s1) = (e2, s2)"
      by (cases "(case readErr of None \<Rightarrow> (None, s1) | Some err \<Rightarrow> fn path (Inl err) s1)")
    have same: "wsJobs s2 = wsJobs s1 \<and> wsNodes s2 = wsNodes s1"
    proof (cases readErr)
      case None
      then show ?thesis using v2 by simp
    next
      case (Some err)
      then show ?thesis using v2 step [of path "Inl err" s1] by (simp add: visitStep_def)
    qed
    have w2: "walkedWithin (\<lambda>q. q = path) st s2"
      using d(2) None same by (simp add: walkedWithin_same)
    show ?thesis
    proof (cases e2)
      case (Some err)
      then show ?thesis
        using v1 v2 None w2 by (simp add: walkedWithin_mono)
    next
      case N2: None
      have wf: "wellFormedEntries entries"
        using "2.prems"(3) by simp
      let ?below = "\<lambda>q. \<exists>m\<in>set (map entryName entries). under (childPrefix path @ m) q"
      have below: "walkedWithin ?below s2 (snd (walkEntries fn path entries s2))"
        using "2.IH" [OF v1 [symmetric] None v2 [symmetric] N2 step "2.prems"(2) wf] by simp
      have ne: "m \<noteq> []" if "m \<in> set (map entryName entries)" for m
        using wellFormedEntries_plain [OF wf that] by (simp add: plainName_def)
      have "walkedWithin (\<lambda>q. q = path \<or> ?below q) st (snd (walkEntries fn path entries s2))"
        by (rule walkedWithin_trans [OF w2 below]) (use ne not_under_child in blast)
      then have "walkedWithin (under path) st (snd (walkEntries fn path entries s2))"
        by (rule walkedWithin_mono) (use ne under_child in auto)
      then show ?thesis using v1 v2 None N2 by simp
    qed
  qed
next
  case (3 fn path st)
  then show ?case by (simp add: walkedWithin_refl)
next
  case (4 fn path d1 ds st)
  note step = "4.prems"(1)
  let ?m1 = "entryName d1"
  have wf: "plainName ?m1" "?m1 \<notin> set (map entryName ds)" "wellFormed d1" "wellFormedEntries ds"
    using "4.prems"(3) by simp_all
  note j = Join_plain [OF "4.prems"(2) wf(1)]
  let ?below = "\<lambda>q. \<exists>m\<in>set (map entryName ds). under (childPrefix path @ m) q"
  let ?all = "\<lambda>q. \<exists>m\<in>set (map entryName (d1 # ds)). under (childPrefix path @ m) q"
  obtain e1 s1 where w1: "walkDir fn (Join path ?m1) d1 st = (e1, s1)"
    by (cases "walkDir fn (Join path ?m1) d1 st")
  have first: "walkedWithin (under (childPrefix path @ ?m1)) st s1"
    using "4.IH"(1) [OF step _ wf(3)] j w1 by simp
  show ?case
  proof (cases e1)
    case (Some err)
    have "walkedWithin ?all st s1"
      by (rule walkedWithin_mono [OF first]) simp
    then show ?thesis using w1 Some by simp
  next
    case None
    have rest: "walkedWithin ?below s1 (snd (walkEntries fn path ds s1))"
      using "4.IH"(2) [OF w1 [symmetric] None step "4.prems"(2) wf(4)] by simp
    have "walkedWithin (\<lambda>q. under (childPrefix path @ ?m1) q \<or> ?below q) st
        (snd (walkEntries fn path ds s1))"
    proof (rule walkedWithin_trans [OF first rest])
      fix q assume a: "under (childPrefix path @ ?m1) q" and "?below q"
      then obtain m where m: "m \<in> set (map entryName ds)" "under (childPrefix path @ m) q"
        by blast
      have "plainName m" using wellFormedEntries_plain [OF wf(4) m(1)] .
      moreover have "?m1 \<noteq> m" using wf(2) m(1) by auto
      ultimately show False
        using under_siblings [OF wf(1) _ _ a m(2)] by blast
    qed
    then have "walkedWithin ?all st (snd (walkEntries fn path ds s1))"
      by (rule walkedWithin_mono) auto
    then show ?thesis using w1 None by simp
  qed
qed

subsection \<open>The jobs of a scan\<close>

lemma scanWalk_jobs:
  assumes "cleanAbs (scanRoot world req)" and "wellFormedAt world (scanRoot world req)"
  shows "distinct (map fst (wsJobs (snd (scanWalk ctx req world scanner0))))"
    and "\<forall>job\<in>set (wsJobs (snd (scanWalk ctx req world scanner0))).
           unmeasuredAt (wsNodes (snd (scanWalk ctx req world scanner0))) (fst job)"
proof -
  let ?r = "scanRoot world req"
  let ?fn = "visit ctx req (scannerLoaded world scanner0) ?r"
  let ?st0 = "\<lparr>wsNodes = [(?r, newRootNode ?r)], wsJobs = [],
        wsScannedCount = 0, wsProgress = [], wsPolls = 0\<rparr>"
  let ?inner = "case lstatTree world ?r of
              Inl err \<Rightarrow> ?fn ?r (Inl err) ?st0
            | Inr entry \<Rightarrow> walkDir ?fn ?r entry ?st0"
  have snd_eq: "snd (scanWalk ctx req world scanner0) = snd ?inner"
    by (simp add: scanWalk_def WalkDir_def split: prod.splits option.splits)
  have w: "walkedWithin (under ?r) ?st0 (snd ?inner)"
  proof (cases "lstatTree world ?r")
    case (Inl err)
    have "wsJobs (snd (?fn ?r (Inl err) ?st0)) = wsJobs ?st0
        \<and> wsNodes (snd (?fn ?r (Inl err) ?st0)) = wsNodes ?st0"
      using visit_visitStep [of ?r "Inl err" ?st0 ctx req "scannerLoaded world scanner0" ?r]
      by (simp add: visitStep_def)
    then show ?thesis
      using Inl walkedWithin_same [OF walkedWithin_refl, of "snd (?fn ?r (Inl err) ?st0)" ?st0 "under ?r"]
      by simp
  next
    case (Inr entry)
    then have "wellFormed entry"
      using assms(2) by (simp add: wellFormedAt_def)
    from walk_walkedWithin(1) [of ?fn, OF visit_visitStep assms(1) this, of ?st0]
    show ?thesis using Inr by simp
  qed
  then obtain js where js: "wsJobs (snd ?inner) = js" "distinct (map fst js)"
    "\<forall>job\<in>set js. unmeasuredAt (wsNodes (snd ?inner)) (fst job)"
    unfolding walkedWithin_def by auto
  show "distinct (map fst (wsJobs (snd (scanWalk ctx req world scanner0))))"
    unfolding snd_eq using js by simp
  show "\<forall>job\<in>set (wsJobs (snd (scanWalk ctx req world scanner0))).
           unmeasuredAt (wsNodes (snd (scanWalk ctx req world scanner0))) (fst job)"
    unfolding snd_eq using js by simp
qed

subsection \<open>A failed stat and an empty file\<close>

lemma entryName_withEmptyFiles [simp]: "entryName (withEmptyFiles e) = entryName e"
  by (cases e) simp_all

lemma entryIsDir_withEmptyFiles [simp]: "entryIsDir (withEmptyFiles e) = entryIsDir e"
  by (cases e) simp_all

lemma jobsAsEmpty_simps [simp]:
  "wsNodes (jobsAsEmpty st) = wsNodes st"
  "wsScannedCount (jobsAsEmpty st) = wsScannedCount st"
  "wsProgress (jobsAsEmpty st) = wsProgress st"
  "wsPolls (jobsAsEmpty st) = wsPolls st"
  "wsJobs (jobsAsEmpty st) = map (\<lambda>job. (fst job, sizeOrZero (snd job))) (wsJobs st)"
  by (simp_all add: jobsAsEmpty_def)

lemma jobsAsEmpty_updates [simp]:
  "jobsAsEmpty (st\<lparr>wsPolls := n\<rparr>) = (jobsAsEmpty st)\<lparr>wsPolls := n\<rparr>"
  "jobsAsEmpty (st\<lparr>wsProgress := b\<rparr>) = (jobsAsEmpty st)\<lparr>wsProgress := b\<rparr>"
  "jobsAsEmpty (st\<lparr>wsNodes := ns\<rparr>) = (jobsAsEmpty st)\<lparr>wsNodes := ns\<rparr>"
  "jobsAsEmpty (st\<lparr>wsScannedCount := c\<rparr>) = (jobsAsEmpty st)\<lparr>wsScannedCount := c\<rparr>"
  by (simp_all add: jobsAsEmpty_def)

lemma jobsAsEmpty_countVisited [simp]:
  "jobsAsEmpty (countVisited path st) = countVisited path (jobsAsEmpty st)"
  by (simp add: countVisited_def Let_def)

lemma visit_withEmptyFiles:
  "visit ctx req scanner rootPath p
       (case a of Inl e \<Rightarrow> Inl e | Inr entry \<Rightarrow> Inr (withEmptyFiles entry)) (jobsAsEmpty st)
     = (case visit ctx req scanner rootPath p a st of (err, st') \<Rightarrow> (err, jobsAsEmpty st'))"
proof (cases a)
  case (Inl e)
  then show ?thesis by (simp add: visit_def)
next
  case (Inr entry)
  show ?thesis
  proof (cases entry)
    case (FsFile name lstat)
    then show ?thesis
      using Inr by (simp add: visit_def Let_def skipOrNil_def) (simp add: jobsAsEmpty_def)
  next
    case (FsDir name info entries readErr)
    then show ?thesis
      using Inr by (simp add: visit_def Let_def skipOrNil_def)
  qed
qed

lemma walk_withEmptyFiles:
  "(\<And>p a s. fn p (case a of Inl e \<Rightarrow> Inl e | Inr entry \<Rightarrow> Inr (withEmptyFiles entry)) (jobsAsEmpty s)
       = (case fn p a s of (err, s') \<Rightarrow> (err, jobsAsEmpty s')))
    \<Longrightarrow> walkDir fn path (withEmptyFiles entry) (jobsAsEmpty st)
       = (case walkDir fn path entry st of (err, st') \<Rightarrow> (err, jobsAsEmpty st'))"
  "(\<And>p a s. fn p (case a of Inl e \<Rightarrow> Inl e | Inr entry \<Rightarrow> Inr (withEmptyFiles entry)) (jobsAsEmpty s)
       = (case fn p a s of (err, s') \<Rightarrow> (err, jobsAsEmpty s')))
    \<Longrightarrow> walkEntries fn path (map withEmptyFiles entries) (jobsAsEmpty st)
       = (case walkEntries fn path entries st of (err, st') \<Rightarrow> (err, jobsAsEmpty st'))"
proof (induction fn path entry st and fn path entries st rule: walkDir_walkEntries.induct)
  case (1 fn path name lstat st)
  show ?case
    using "1.prems" [of path "Inr (FsFile name lstat)" st] by simp
next
  case (2 fn path name info entries readErr st)
  note step = "2.prems"
  obtain e1 s1 where v1: "fn path (Inr (FsDir name info entries readErr)) st = (e1, s1)"
    by (cases "fn path (Inr (FsDir name info entries readErr)) st")
  have v1': "fn path (Inr (FsDir name info (map withEmptyFiles entries) readErr)) (jobsAsEmpty st)
      = (e1, jobsAsEmpty s1)"
    using step [of path "Inr (FsDir name info entries readErr)" st] v1 by simp
  show ?case
  proof (cases e1)
    case (Some err)
    then show ?thesis using v1 v1' by simp
  next
    case None
    obtain e2 s2 where
      v2: "(case readErr of None \<Rightarrow> (None, s1) | Some err \<Rightarrow> fn path (Inl err) s1) = (e2, s2)"
      by (cases "(case readErr of None \<Rightarrow> (None, s1) | Some err \<Rightarrow> fn path (Inl err) s1)")
    have v2': "(case readErr of None \<Rightarrow> (None, jobsAsEmpty s1)
                 | Some err \<Rightarrow> fn path (Inl err) (jobsAsEmpty s1)) = (e2, jobsAsEmpty s2)"
    proof (cases readErr)
      case None
      then show ?thesis using v2 by auto
    next
      case (Some err)
      then show ?thesis using v2 step [of path "Inl err" s1] by simp
    qed
    show ?thesis
    proof (cases e2)
      case (Some err)
      then show ?thesis using v1 v1' v2 v2' None by simp
    next
      case N2: None
      note ih = "2.IH" [OF v1 [symmetric] None v2 [symmetric] N2 step]
      show ?thesis using v1 v1' v2 v2' None N2 ih by simp
    qed
  qed
next
  case (3 fn path st)
  then show ?case by simp
next
  case (4 fn path d1 ds st)
  note step = "4.prems"
  obtain e1 s1 where w1: "walkDir fn (Join path (entryName d1)) d1 st = (e1, s1)"
    by (cases "walkDir fn (Join path (entryName d1)) d1 st")
  have w1': "walkDir fn (Join path (entryName d1)) (withEmptyFiles d1) (jobsAsEmpty st)
      = (e1, jobsAsEmpty s1)"
    using "4.IH"(1) [OF step] w1 by simp
  show ?case
  proof (cases e1)
    case (Some err)
    then show ?thesis using w1 w1' by simp
  next
    case None
    note ih = "4.IH"(2) [OF w1 [symmetric] None step]
    show ?thesis using w1 w1' None ih by simp
  qed
qed

lemma collectResult_asEmpty:
  assumes "unmeasuredAt nodes (fst job)"
  shows "collectResult r (fst job, sizeOrZero (snd job)) (c, nodes, buf)
     = collectResult r job (c, nodes, buf)"
proof (cases "snd job")
  case (Inl err)
  from assms obtain n where n: "map_of nodes (fst job) = Some n" "unsizedFile n"
    by (auto simp: unmeasuredAt_def split: option.splits)
  have "n\<lparr>SizeBytes := 0, AccumBytes := 0\<rparr> = n"
    using n(2) by (simp add: unsizedFile_def)
  then have "AList.update (fst job) (n\<lparr>SizeBytes := 0, AccumBytes := 0\<rparr>) nodes = nodes"
    using n(1) by (simp add: update_triv)
  then show ?thesis
    using Inl n(1) by (simp add: collectResult_def sizeOrZero_def Let_def)
next
  case (Inr sz)
  then have "(fst job, sizeOrZero (snd job)) = job"
    by (cases job) (simp add: sizeOrZero_def)
  then show ?thesis by simp
qed

lemma collect_asEmpty:
  assumes "distinct (map fst jobs)" and "\<forall>job\<in>set jobs. unmeasuredAt nodes (fst job)"
  shows "fold (collectResult r) (map (\<lambda>job. (fst job, sizeOrZero (snd job))) jobs) (c, nodes, buf)
     = fold (collectResult r) jobs (c, nodes, buf)"
  using assms
proof (induction jobs arbitrary: c nodes buf)
  case Nil
  then show ?case by simp
next
  case (Cons job jobs)
  obtain c1 nodes1 buf1 where step: "collectResult r job (c, nodes, buf) = (c1, nodes1, buf1)"
    by (cases "collectResult r job (c, nodes, buf)")
  have first: "collectResult r (fst job, sizeOrZero (snd job)) (c, nodes, buf) = (c1, nodes1, buf1)"
    using collectResult_asEmpty [of nodes job r c buf] Cons.prems(2) step by simp
  have rest: "\<forall>j\<in>set jobs. unmeasuredAt nodes1 (fst j)"
  proof
    fix j assume j: "j \<in> set jobs"
    then have "fst job \<noteq> fst j" using Cons.prems(1) by auto
    then have "map_of nodes1 (fst j) = map_of nodes (fst j)"
      using collectResult_other [of job "fst j" r "(c, nodes, buf)"] step by simp
    then show "unmeasuredAt nodes1 (fst j)"
      using Cons.prems(2) j by (simp add: unmeasuredAt_def)
  qed
  have "distinct (map fst jobs)" using Cons.prems(1) by simp
  from Cons.IH [OF this rest] show ?case
    by (simp add: first step)
qed

subsection \<open>The same scan with empty files\<close>

lemma emptyFilesWorld_simps [simp]:
  "workDir (emptyFilesWorld world) = workDir world"
  "statModTime (emptyFilesWorld world) = statModTime world"
  "cacheFileOnDisk (emptyFilesWorld world) = cacheFileOnDisk world"
  "cacheWritable (emptyFilesWorld world) = cacheWritable world"
  by (simp_all add: emptyFilesWorld_def)

lemma loadCache_emptyFiles [simp]:
  "loadCache (emptyFilesWorld world) scanner = loadCache world scanner"
  by (simp add: loadCache_def)

lemma scanRoot_emptyFiles [simp]: "scanRoot (emptyFilesWorld world) req = scanRoot world req"
  by (simp add: scanRoot_def)

lemma scannerLoaded_emptyFiles [simp]:
  "scannerLoaded (emptyFilesWorld world) scanner = scannerLoaded world scanner"
  by (simp add: scannerLoaded_def)

lemma canReuseRoot_emptyFiles [simp]:
  "canReuseRoot (emptyFilesWorld world) scanner path showHidden
     = canReuseRoot world scanner path showHidden"
  by (auto simp: canReuseRoot_def split: option.splits sum.splits)

lemma walksFilesystem_emptyFiles [simp]:
  "walksFilesystem (emptyFilesWorld world) scanner req = walksFilesystem world scanner req"
  by (simp add: walksFilesystem_def)

lemma saveCache_emptyFiles:
  "saveCache nodes showHidden scanner (emptyFilesWorld world)
     = emptyFilesWorld (saveCache nodes showHidden scanner world)"
  by (simp add: saveCache_def Let_def) (simp add: emptyFilesWorld_def)

lemma scanWalk_emptyFiles:
  "scanWalk ctx req (emptyFilesWorld world) scanner0
     = (case scanWalk ctx req world scanner0 of (err, st) \<Rightarrow> (err, jobsAsEmpty st))"
proof -
  let ?r = "scanRoot world req"
  let ?fn = "visit ctx req (scannerLoaded world scanner0) ?r"
  let ?st0 = "\<lparr>wsNodes = [(?r, newRootNode ?r)], wsJobs = [],
        wsScannedCount = 0, wsProgress = [], wsPolls = 0\<rparr>"
  have st0: "jobsAsEmpty ?st0 = ?st0"
    by (simp add: jobsAsEmpty_def)
  have inner: "(case lstatTree (emptyFilesWorld world) ?r of
              Inl err \<Rightarrow> ?fn ?r (Inl err) ?st0
            | Inr entry \<Rightarrow> walkDir ?fn ?r entry ?st0)
      = (case (case lstatTree world ?r of
              Inl err \<Rightarrow> ?fn ?r (Inl err) ?st0
            | Inr entry \<Rightarrow> walkDir ?fn ?r entry ?st0) of (err, st) \<Rightarrow> (err, jobsAsEmpty st))"
  proof (cases "lstatTree world ?r")
    case (Inl err)
    then show ?thesis
      using visit_withEmptyFiles [of ctx req "scannerLoaded world scanner0" ?r ?r "Inl err" ?st0]
      by (simp add: emptyFilesWorld_def st0)
  next
    case (Inr entry)
    then show ?thesis
      using walk_withEmptyFiles(1) [of ?fn ?r entry ?st0, OF visit_withEmptyFiles]
      by (simp add: emptyFilesWorld_def st0)
  qed
  show ?thesis
    unfolding scanWalk_def WalkDir_def scanRoot_emptyFiles scannerLoaded_emptyFiles inner
    by (simp split: prod.splits option.splits)
qed

lemma scanCollected_emptyFiles:
  assumes "cleanAbs (scanRoot world req)" and "wellFormedAt world (scanRoot world req)"
  shows "scanCollected ctx req (emptyFilesWorld world) scanner0
     = scanCollected ctx req world scanner0"
proof -
  let ?st1 = "snd (scanWalk ctx req world scanner0)"
  let ?f = "\<lambda>job. (fst job, sizeOrZero (snd job))"
  have st: "snd (scanWalk ctx req (emptyFilesWorld world) scanner0) = jobsAsEmpty ?st1"
    by (simp add: scanWalk_emptyFiles split: prod.splits)
  have w: "worker ctx (map ?f (wsJobs ?st1)) = map ?f (worker ctx (wsJobs ?st1))"
    by (simp add: worker_def take_map split: option.splits)
  note jobs = scanWalk_jobs [OF assms, of ctx scanner0]
  have d: "distinct (map fst (worker ctx (wsJobs ?st1)))"
    using jobs(1) by (auto simp: worker_def take_map [symmetric] split: option.splits)
  have u: "\<forall>job\<in>set (worker ctx (wsJobs ?st1)). unmeasuredAt (wsNodes ?st1) (fst job)"
    using jobs(2) by (auto simp: worker_def split: option.splits dest: in_set_takeD)
  show ?thesis
    unfolding scanCollected_def Let_def st scanRoot_emptyFiles
    by (simp add: w collect_asEmpty [OF d u])
qed

lemma scanIndex_emptyFiles:
  assumes "cleanAbs (scanRoot world req)" and "wellFormedAt world (scanRoot world req)"
  shows "scanIndex ctx req (emptyFilesWorld world) scanner0 = scanIndex ctx req world scanner0"
  by (simp add: scanIndex_def scanCollected_emptyFiles [OF assms])

lemma Scan_emptyFiles:
  assumes loaded: "fst (loadCache world scanner0) = None"
    and walks: "walksFilesystem world scanner0 req"
    and root: "cleanAbs (scanRoot world req)"
    and tree: "wellFormedAt world (scanRoot world req)"
  shows "Scan ctx req (emptyFilesWorld world, scanner0)
     = (case Scan ctx req (world, scanner0) of
          (out, world', scanner') \<Rightarrow> (out, emptyFilesWorld world', scanner'))"
proof -
  have np: "fst (Scan ctx req (world, scanner0)) \<noteq> Panics"
    by (rule Scan_no_panic [OF loaded])
  have np': "fst (Scan ctx req (emptyFilesWorld world, scanner0)) \<noteq> Panics"
    by (rule Scan_no_panic) (simp add: loaded)
  have walks': "walksFilesystem (emptyFilesWorld world) scanner0 req"
    using walks by simp
  have fstw: "fst (scanWalk ctx req (emptyFilesWorld world) scanner0)
      = fst (scanWalk ctx req world scanner0)"
    and cnt: "wsScannedCount (snd (scanWalk ctx req (emptyFilesWorld world) scanner0))
      = wsScannedCount (snd (scanWalk ctx req world scanner0))"
    by (simp_all add: scanWalk_emptyFiles split: prod.splits)
  show ?thesis
    unfolding Scan_stages [OF walks np] Scan_stages [OF walks' np']
    by (simp add: Let_def fstw cnt scanCollected_emptyFiles [OF root tree]
        scanIndex_emptyFiles [OF root tree] saveCache_emptyFiles
        split: option.splits)
qed

subsection \<open>The scan of the tree with the vanished file\<close>

lemma vanished_load: "loadCache vanishedWorld tinyScanner = (None, tinyScanner\<lparr>cacheLoaded := True\<rparr>)"
  by (simp add: loadCache_def vanishedWorld_def tinyScanner_def NewFSScanner_def)

lemma vanished_root: "scanRoot vanishedWorld tinyReq = ''/root''"
  by (simp add: scanRoot_def vanishedWorld_def tinyReq_def path_defs)

lemma vanished_scanner:
  "scannerLoaded vanishedWorld tinyScanner = tinyScanner\<lparr>cacheLoaded := True, progress := OpenChan []\<rparr>"
  by (simp add: scannerLoaded_def vanished_load)

lemma vanished_walks: "walksFilesystem vanishedWorld tinyScanner tinyReq"
  unfolding walksFilesystem_def vanished_root vanished_scanner
  by (simp add: canReuseRoot_def isCached_def tinyScanner_def NewFSScanner_def)

lemma vanished_walk:
  "scanWalk background tinyReq vanishedWorld tinyScanner
     = (None, \<lparr>wsNodes = vanishedWalked,
               wsJobs = [(''/root/a/f1'', Inl ErrNotExist), (''/root/a/f2'', Inr 10)],
               wsScannedCount = 4, wsProgress = [], wsPolls = 4\<rparr>)"
  unfolding scanWalk_def vanished_root vanished_scanner
  by (simp add: WalkDir_def vanishedWorld_def vanishedTree_def tinyReq_def tinyScanner_def
      vanishedWalked_def mkNode_def newRootNode_def path_defs visit_defs NodeDir_def NodeFile_def)

lemma vanished_collect:
  "scanCollected background tinyReq vanishedWorld tinyScanner = (2, vanishedCollected, [])"
  unfolding scanCollected_def vanished_walk vanished_root
  by (simp add: collectResult_def worker_def background_def vanishedWalked_def
      vanishedCollected_def mkNode_def)

lemma vanished_passes:
  "scanIndex background tinyReq vanishedWorld tinyScanner = vanishedIndex"
  unfolding scanIndex_def vanished_collect
  by (simp add: vanishedCollected_def vanishedIndex_def mkNode_def pass_defs path_defs)

lemma vanished_clean: "cleanAbs ''/root''"
  by (simp add: cleanAbs_def path_defs)

lemma vanished_wellFormed: "wellFormedAt vanishedWorld ''/root''"
  by (simp add: wellFormedAt_def vanishedWorld_def vanishedTree_def plainName_def Separator_def)

subsection \<open>The root of a scan is clean and absolute\<close>

lemma Clean_rooted:
  assumes "HasPrefix p ''/''"
  shows "cleanAbs (Clean p)"
proof -
  from assms obtain t where p: "p = CHR ''/'' # t"
    by (cases p) (auto simp: HasPrefix_def)
  let ?cs = "rev (fold (cleanElem True) (splitSep p) [])"
  have "list_all plainName (fold (cleanElem True) (splitSep p) [])"
    by (rule fold_cleanElem_rooted) (auto dest: splitSep_no_sep)
  then have all: "list_all plainName ?cs"
    by (simp add: list_all_iff)
  have c: "Clean p = CHR ''/'' # joinSep ?cs"
    using p by (simp add: Clean_def)
  show ?thesis
    unfolding c using Clean_absolute [OF all] by (simp add: cleanAbs_def HasPrefix_def)
qed

lemma scanRoot_cleanAbs:
  assumes "RootPath req \<noteq> []"
    and "HasPrefix (RootPath req) ''/'' \<or> (\<exists>w. workDir world = Inr w \<and> HasPrefix w ''/'')"
  shows "cleanAbs (scanRoot world req)"
proof (cases "HasPrefix (Clean (RootPath req)) ''/''")
  case True
  then show ?thesis
    using assms(1) Clean_rooted [OF True] by (simp add: scanRoot_def cleanPath_def Abs_def)
next
  case False
  have "\<not> HasPrefix (RootPath req) ''/''"
  proof
    assume "HasPrefix (RootPath req) ''/''"
    from Clean_rooted [OF this] False show False by (simp add: cleanAbs_def)
  qed
  with assms(2) obtain w where w: "workDir world = Inr w" "HasPrefix w ''/''"
    by blast
  then have "w \<noteq> []" by (auto simp: HasPrefix_def)
  have "HasPrefix (w @ CHR ''/'' # Clean (RootPath req)) ''/''"
    using w(2) by (auto simp: HasPrefix_def prefix_def)
  from Clean_rooted [OF this] show ?thesis
    using assms(1) False w(1) \<open>w \<noteq> []\<close>
    by (simp add: scanRoot_def cleanPath_def Abs_def Join_def)
qed

subsection \<open>The index of the scan with the vanished file\<close>

lemma vanished_replace:
  "cache (replaceCache ''/root'' vanishedIndex (tinyScanner\<lparr>cacheLoaded := True, progress := OpenChan []\<rparr>))
     = vanishedIndex"
  by (simp add: replaceCache_def deleteWithin_def tinyScanner_def NewFSScanner_def vanishedIndex_def
      mkNode_def path_defs NodeDir_def NodeFile_def Let_def)

lemma vanished_cache:
  "cache (snd (snd (Scan background tinyReq (vanishedWorld, tinyScanner)))) = vanishedIndex"
proof -
  have "fst (Scan background tinyReq (vanishedWorld, tinyScanner)) \<noteq> Panics"
    by (rule Scan_no_panic) (simp add: vanished_load)
  note st = Scan_stages [OF vanished_walks this]
  show ?thesis
    unfolding st vanished_root vanished_scanner vanished_passes
    by (simp add: Let_def vanished_walk vanished_replace)
qed

section \<open>Invalidation\<close>

text \<open>
  \<^verbatim>\<open>Invalidate(p)\<close> normalises \<open>p\<close> with \<^verbatim>\<open>cleanPath\<close> and removes from the cache the keys
  that pass \<^verbatim>\<open>isWithin\<close>: those equal to the normalised path or starting with it followed
  by a separator. Every other key keeps its node, in the same order, and the fields of
  the scanner other than \<open>cache\<close> and \<open>scannedDirs\<close> are untouched. A sibling that only
  extends the path as a string, such as \<^verbatim>\<open>/root/ab\<close> for \<^verbatim>\<open>/root/a\<close>, stays.
\<close>

lemma Invalidate_by_prefix_test:
  "map_of (cache (Invalidate wd p scanner)) key =
     (if key = cleanPath wd p \<or> HasPrefix key (cleanPath wd p @ ''/'') then None
      else map_of (cache scanner) key)
   \<and> cache (Invalidate wd p scanner) =
       filter (\<lambda>(k, v). \<not> isWithin (cleanPath wd p) k) (cache scanner)
   \<and> cleanPath wd ''/root/a'' = ''/root/a''
   \<and> map_of (cache (Invalidate wd ''/root/a'' scanner)) ''/root/ab'' =
       map_of (cache scanner) ''/root/ab''
   \<and> map_of (cache (Invalidate wd ''/root/a'' scanner)) ''/root/a/f1'' = None
   \<and> root (Invalidate wd p scanner) = root scanner
   \<and> cacheEntries (Invalidate wd p scanner) = cacheEntries scanner"
proof -
  have clean: "cleanPath wd ''/root/a'' = ''/root/a''"
    by (simp add: cleanPath_def Abs_def Clean_def HasPrefix_def)
  have look: "\<And>k. map_of (cache (Invalidate wd p scanner)) k =
      (if isWithin (cleanPath wd p) k then None else map_of (cache scanner) k)"
    by (simp add: Invalidate_def Let_def map_of_deleteWithin)
  have within: "isWithin (cleanPath wd p) key
      = (key = cleanPath wd p \<or> HasPrefix key (cleanPath wd p @ ''/''))"
    by (auto simp: isWithin_def Let_def Separator_def)
  have look_a: "\<And>k. map_of (cache (Invalidate wd ''/root/a'' scanner)) k =
      (if isWithin ''/root/a'' k then None else map_of (cache scanner) k)"
    by (simp add: Invalidate_def Let_def map_of_deleteWithin clean)
  have sib: "\<not> isWithin ''/root/a'' ''/root/ab''"
    by (simp add: isWithin_def Let_def Separator_def HasPrefix_def)
  have sub: "isWithin ''/root/a'' ''/root/a/f1''"
    by (simp add: isWithin_def Let_def Separator_def HasPrefix_def)
  show ?thesis
    using look [of key] within look_a [of "''/root/ab''"] look_a [of "''/root/a/f1''"] sib sub clean
    by (simp add: Invalidate_def Let_def deleteWithin_filter)
qed

text \<open>
  C6. For the filesystem root the test misses every node below: \<^verbatim>\<open>isWithin\<close> appends a
  separator to the root, and no clean path starts with \<^verbatim>\<open>//\<close>. After a scan of \<^verbatim>\<open>/\<close> the
  cache holds \<^verbatim>\<open>/\<close>, \<^verbatim>\<open>/a\<close> and \<^verbatim>\<open>/a/f1\<close>; \<^verbatim>\<open>Invalidate("/")\<close> removes the node \<^verbatim>\<open>/\<close> alone
  and leaves \<^verbatim>\<open>/a\<close> and \<^verbatim>\<open>/a/f1\<close>, which lie under it. \<^verbatim>\<open>Invalidate("/a")\<close> on the same
  cache removes \<^verbatim>\<open>/a\<close> and \<^verbatim>\<open>/a/f1\<close> and leaves \<^verbatim>\<open>/\<close>.
\<close>

theorem Invalidate_root_keeps_nodes_below:
  "cache (snd (snd (Scan background slashReq (slashWorld, tinyScanner)))) = slashIndex
   \<and> cleanPath (workDir slashWorld) ''/'' = ''/''
   \<and> cache (Invalidate (workDir slashWorld) ''/''
               (snd (snd (Scan background slashReq (slashWorld, tinyScanner)))))
       = [(''/a'', mkNode ''/a'' ''a'' NodeDir ''/'' 0 10 [''/a/f1''] 0 1 0),
          (''/a/f1'', mkNode ''/a/f1'' ''f1'' NodeFile ''/a'' 10 10 [] 0 1 0)]
   \<and> cache (Invalidate (workDir slashWorld) ''/a''
               (snd (snd (Scan background slashReq (slashWorld, tinyScanner)))))
       = [(''/'', mkNode ''/'' ''/'' NodeDir [] 0 0 [''/a''] 1 0 1)]"
proof -
  let ?sc = "snd (snd (Scan background slashReq (slashWorld, tinyScanner)))"
  have c: "cache ?sc = slashIndex"
    using slash_scan by simp
  have r: "cleanPath (workDir slashWorld) ''/'' = ''/''"
    by (simp add: slashWorld_def path_defs)
  have a: "cleanPath (workDir slashWorld) ''/a'' = ''/a''"
    by (simp add: slashWorld_def path_defs)
  have i1: "cache (Invalidate (workDir slashWorld) ''/'' ?sc)
       = [(''/a'', mkNode ''/a'' ''a'' NodeDir ''/'' 0 10 [''/a/f1''] 0 1 0),
          (''/a/f1'', mkNode ''/a/f1'' ''f1'' NodeFile ''/a'' 10 10 [] 0 1 0)]"
    unfolding Invalidate_def Let_def r
    by (simp add: c deleteWithin_filter slashIndex_def isWithin_def HasPrefix_def Separator_def)
  have i2: "cache (Invalidate (workDir slashWorld) ''/a'' ?sc)
       = [(''/'', mkNode ''/'' ''/'' NodeDir [] 0 0 [''/a''] 1 0 1)]"
    unfolding Invalidate_def Let_def a
    by (simp add: c deleteWithin_filter slashIndex_def isWithin_def HasPrefix_def Separator_def)
  show ?thesis
    using c r i1 i2 by simp
qed

section \<open>File nodes count themselves\<close>

text \<open>
  C8, as amended. A walking scan that does not end in an error stores its index in the
  cache, whether it returns or waits at its last progress send. Every file node of that
  index, and every file node the cache then holds at or under the scanned root, has
  \<open>FileCount = 1\<close> and \<open>DirCount = 0\<close>: \<^verbatim>\<open>applyFileCounts\<close> gives a file the count 1,
  which is what makes a directory's count the sum over its children. Every key of the
  index is a key of the cache. The claim's \<open>FileCount = 0\<close> does not hold.
\<close>

theorem walked_file_nodes_count_themselves:
  assumes walks: "walksFilesystem world scanner0 req"
    and outcome: "fst (Scan ctx req (world, scanner0)) = Returns (res, None)
        \<or> fst (Scan ctx req (world, scanner0)) = Blocks"
    and node: "map_of (cache (snd (snd (Scan ctx req (world, scanner0))))) key = Some n"
    and scanned: "key \<in> set (map fst (scanIndex ctx req world scanner0))
        \<or> isWithin (scanRoot world req) key"
    and isfile: "Type n = NodeFile"
  shows "FileCount n = 1 \<and> DirCount n = 0
    \<and> set (map fst (scanIndex ctx req world scanner0))
        \<subseteq> set (map fst (cache (snd (snd (Scan ctx req (world, scanner0))))))"
proof -
  let ?idx = "scanIndex ctx req world scanner0"
  let ?sc = "replaceCache (scanRoot world req) ?idx (scannerLoaded world scanner0)"
  note stored = Scan_stores_index [OF walks outcome]
  have node': "map_of (cache ?sc) key = Some n"
    using node by (simp add: stored)
  have "\<exists>n0. map_of ?idx key = Some n0
      \<and> n = n0\<lparr>ChildrenIDs := ChildrenIDs n, ChildCount := ChildCount n\<rparr>"
    using scanned
  proof
    assume "key \<in> set (map fst ?idx)"
    then obtain n0 where n0: "map_of ?idx key = Some n0"
      by (metis map_of_eq_None_iff not_Some_eq set_map)
    from replaceCache_stored [OF distinct_scanIndex n0, of "scanRoot world req" "scannerLoaded world scanner0"]
    show ?thesis using node' n0 by auto
  next
    assume "isWithin (scanRoot world req) key"
    from replaceCache_within [OF distinct_scanIndex this node'] show ?thesis .
  qed
  then obtain n0 where n0: "map_of ?idx key = Some n0"
    and eq: "n = n0\<lparr>ChildrenIDs := ChildrenIDs n, ChildCount := ChildCount n\<rparr>"
    by blast
  have t0: "Type n0 = NodeFile" and fc: "FileCount n = FileCount n0" and dc: "DirCount n = DirCount n0"
    using isfile by (subst (asm) eq, simp) (subst eq, simp)+
  from file_counts_after_passes [OF n0 [unfolded scanIndex_def] t0] fc dc
  have counts: "FileCount n = 1 \<and> DirCount n = 0" by simp
  have "k \<in> set (map fst (cache ?sc))" if "k \<in> set (map fst ?idx)" for k
  proof -
    from that obtain n0 where "map_of ?idx k = Some n0"
      by (metis map_of_eq_None_iff not_Some_eq set_map)
    from replaceCache_stored [OF distinct_scanIndex this, of "scanRoot world req" "scannerLoaded world scanner0"]
    show ?thesis
      by (metis map_of_eq_None_iff option.distinct(1) set_map)
  qed
  then show ?thesis
    using counts by (auto simp: stored)
qed

theorem walked_file_nodes_count_themselves_witness:
  "walksFilesystem slashWorld tinyScanner slashReq
   \<and> fst (Scan background slashReq (slashWorld, tinyScanner)) = Returns (\<lparr>resRootPath = ''/''\<rparr>, None)
   \<and> map_of (cache (snd (snd (Scan background slashReq (slashWorld, tinyScanner))))) ''/a/f1''
       = Some (mkNode ''/a/f1'' ''f1'' NodeFile ''/a'' 10 10 [] 0 1 0)
   \<and> ''/a/f1'' \<in> set (map fst (scanIndex background slashReq slashWorld tinyScanner))
   \<and> \<not> isWithin (scanRoot slashWorld slashReq) ''/a/f1''
   \<and> Type (mkNode ''/a/f1'' ''f1'' NodeFile ''/a'' 10 10 [] 0 1 0) = NodeFile
   \<and> FileCount (mkNode ''/a/f1'' ''f1'' NodeFile ''/a'' 10 10 [] 0 1 0) = 1
   \<and> DirCount (mkNode ''/a/f1'' ''f1'' NodeFile ''/a'' 10 10 [] 0 1 0) = 0
   \<and> set (map fst (scanIndex background slashReq slashWorld tinyScanner))
        \<subseteq> set (map fst (cache (snd (snd (Scan background slashReq (slashWorld, tinyScanner))))))"
proof -
  let ?run = "Scan background slashReq (slashWorld, tinyScanner)"
  let ?n = "mkNode ''/a/f1'' ''f1'' NodeFile ''/a'' 10 10 [] 0 1 0"
  have outcome: "fst ?run = Returns (\<lparr>resRootPath = ''/''\<rparr>, None) \<or> fst ?run = Blocks"
    using slash_scan by simp
  have node: "map_of (cache (snd (snd ?run))) ''/a/f1'' = Some ?n"
    using slash_scan by (simp add: slashIndex_def)
  have inidx: "''/a/f1'' \<in> set (map fst (scanIndex background slashReq slashWorld tinyScanner))"
    by (simp add: slash_index slashIndex_def)
  have outside: "\<not> isWithin (scanRoot slashWorld slashReq) ''/a/f1''"
    by (simp add: scanRoot_def slash_root isWithin_def HasPrefix_def Separator_def)
  have isfile: "Type ?n = NodeFile"
    by (simp add: mkNode_def)
  from walked_file_nodes_count_themselves [OF slash_walks outcome node disjI1 [OF inidx] isfile]
  show ?thesis
    using slash_walks slash_scan node inidx outside isfile by simp
qed

text \<open>
  The scan of \<^verbatim>\<open>/root/a/f1\<close> returns without error, and the file node \<^verbatim>\<open>/root/a/f1\<close> in
  the cache has \<open>FileCount = 1\<close>, not 0.
\<close>

theorem file_node_FileCount_counterexample:
  "fst (Scan background tinyReq (tinyWorld, tinyScanner)) = Returns (\<lparr>resRootPath = ''/root''\<rparr>, None)
   \<and> map_option Type (map_of (cache (snd (snd (Scan background tinyReq (tinyWorld, tinyScanner))))) ''/root/a/f1'')
       = Some NodeFile
   \<and> map_option FileCount (map_of (cache (snd (snd (Scan background tinyReq (tinyWorld, tinyScanner))))) ''/root/a/f1'')
       = Some 1
   \<and> (1 :: 64 word) \<noteq> 0"
  using tiny_scan by (simp add: tinyIndex_def mkNode_def)

section \<open>Exclusions\<close>

text \<open>
  C5, as amended. When the request does not show hidden entries, the walk of a non-root
  directory whose name is in the exclusion set ends at its first callback: the poll of
  the context is counted and nothing else changes, whatever the directory holds, so no
  entry below it is visited. When the request shows hidden entries the exclusion set is
  not consulted: the callback does what it does with an empty exclusion set.
\<close>

theorem excluded_directory_skipped_unless_hidden_shown:
  "(\<not> ShowHidden req \<and> path \<noteq> rootPath \<and> isExcluded scanner name \<longrightarrow>
      walkDir (visit ctx req scanner rootPath) path (FsDir name info entries readErr) st =
        (if ctxErr ctx (wsPolls st) then Some Canceled else None, st\<lparr>wsPolls := Suc (wsPolls st)\<rparr>))
   \<and> (ShowHidden req' \<longrightarrow>
      visit ctx req' scanner rootPath path arg st =
        visit ctx req' (scanner\<lparr>exclusions := []\<rparr>) rootPath path arg st)"
proof (intro conjI impI)
  assume "\<not> ShowHidden req \<and> path \<noteq> rootPath \<and> isExcluded scanner name"
  then show "walkDir (visit ctx req scanner rootPath) path (FsDir name info entries readErr) st =
        (if ctxErr ctx (wsPolls st) then Some Canceled else None, st\<lparr>wsPolls := Suc (wsPolls st)\<rparr>)"
    by (simp add: visit_def Let_def skipOrNil_def)
next
  assume "ShowHidden req'"
  then show "visit ctx req' scanner rootPath path arg st =
        visit ctx req' (scanner\<lparr>exclusions := []\<rparr>) rootPath path arg st"
    by (simp add: visit_def Let_def cong: sum.case_cong FsEntry.case_cong if_cong)
qed

theorem excluded_directory_skipped_unless_hidden_shown_witness:
  "\<not> ShowHidden tinyReq \<and> ''/root/node_modules'' \<noteq> ''/root''
   \<and> isExcluded tinyScanner ''node_modules''
   \<and> walkDir (visit background tinyReq tinyScanner ''/root'') ''/root/node_modules''
        (FsDir ''node_modules'' (Inr 200) [FsFile ''x'' (Inr 7)] None)
        \<lparr>wsNodes = [], wsJobs = [], wsScannedCount = 1, wsProgress = [], wsPolls = 1\<rparr>
       = (None, \<lparr>wsNodes = [], wsJobs = [], wsScannedCount = 1, wsProgress = [], wsPolls = 2\<rparr>)
   \<and> ShowHidden showAllReq
   \<and> visit background showAllReq tinyScanner ''/root'' ''/root/node_modules''
        (Inr (FsDir ''node_modules'' (Inr 200) [FsFile ''x'' (Inr 7)] None))
        \<lparr>wsNodes = [], wsJobs = [], wsScannedCount = 1, wsProgress = [], wsPolls = 1\<rparr>
       = visit background showAllReq (tinyScanner\<lparr>exclusions := []\<rparr>) ''/root'' ''/root/node_modules''
        (Inr (FsDir ''node_modules'' (Inr 200) [FsFile ''x'' (Inr 7)] None))
        \<lparr>wsNodes = [], wsJobs = [], wsScannedCount = 1, wsProgress = [], wsPolls = 1\<rparr>"
proof -
  have h: "\<not> ShowHidden tinyReq \<and> ''/root/node_modules'' \<noteq> ''/root''
      \<and> isExcluded tinyScanner ''node_modules''"
    by (simp add: tinyReq_def isExcluded_def tinyScanner_def NewFSScanner_def)
  have h': "ShowHidden showAllReq"
    by (simp add: showAllReq_def)
  from excluded_directory_skipped_unless_hidden_shown
    [of tinyReq "''/root/node_modules''" "''/root''" tinyScanner "''node_modules''" background
      "Inr 200" "[FsFile ''x'' (Inr 7)]" None
      "\<lparr>wsNodes = [], wsJobs = [], wsScannedCount = 1, wsProgress = [], wsPolls = 1\<rparr>"
      showAllReq "Inr (FsDir ''node_modules'' (Inr 200) [FsFile ''x'' (Inr 7)] None)"]
  show ?thesis
    using h h' by (simp add: ctxErr_def background_def)
qed

text \<open>
  With \<open>ShowHidden = True\<close> the walk of \<^verbatim>\<open>/root\<close> descends into \<^verbatim>\<open>node_modules\<close>, a name
  of the exclusion set, and creates the node of the file below it.
\<close>

theorem excluded_directory_walked_counterexample:
  "isExcluded tinyScanner ''node_modules''
   \<and> map_option Type
        (map_of (wsNodes (snd (WalkDir (visit background showAllReq tinyScanner ''/root'')
                                (\<lambda>p. Inr modulesTree) ''/root''
                                \<lparr>wsNodes = [(''/root'', newRootNode ''/root'')], wsJobs = [],
                                 wsScannedCount = 0, wsProgress = [], wsPolls = 0\<rparr>)))
           ''/root/node_modules/x'')
       = Some NodeFile"
  by (simp add: WalkDir_def modulesTree_def showAllReq_def tinyScanner_def newRootNode_def
      path_defs visit_defs NodeDir_def NodeFile_def)

section \<open>Cancellation\<close>

text \<open>
  C3. A scan that returns an error leaves the cache, the scanned directories, the root and
  the cache file as they were (\<open>Scan_error_keeps_cache\<close>), and a cancellation the walk
  sees is such an error. A cancellation that arrives after the walk's last poll is seen
  by the workers only: they stop, \<^verbatim>\<open>Scan\<close> does not look at the context again, and it
  returns without error after writing the index, with the unmeasured file at size 0, into
  the cache that was empty before.
\<close>

theorem cancelled_after_walk_writes_cache:
  "fst (Scan cancelledAfterWalk tinyReq (tinyWorld, tinyScanner))
     = Returns (\<lparr>resRootPath = ''/root''\<rparr>, None)
   \<and> cache tinyScanner = []
   \<and> cache (snd (snd (Scan cancelledAfterWalk tinyReq (tinyWorld, tinyScanner)))) = tinyUnsized
   \<and> map_option SizeBytes (map_of tinyUnsized ''/root/a/f1'') = Some 0"
proof -
  have c: "doneAtVisit cancelledAfterWalk = None" by (simp add: cancelledAfterWalk_def)
  note run = Scan_walk_path [OF tiny_load refl tiny_root [symmetric] tiny_not_reused tiny_not_cached
      tiny_walk [OF c] tiny_collect_cancelled tiny_passes_unsized]
  have returned: "fst (Scan cancelledAfterWalk tinyReq (tinyWorld, tinyScanner))
      = Returns (\<lparr>resRootPath = ''/root''\<rparr>, None)"
    unfolding run by (simp add: progressCapacity_def)
  have written: "cache (snd (snd (Scan cancelledAfterWalk tinyReq (tinyWorld, tinyScanner)))) = tinyUnsized"
    unfolding run by (simp add: progressCapacity_def tiny_replace_unsized)
  have before: "cache tinyScanner = []"
    by (simp add: tinyScanner_def NewFSScanner_def)
  have unsized: "map_option SizeBytes (map_of tinyUnsized ''/root/a/f1'') = Some 0"
    by (simp add: tinyUnsized_def mkNode_def)
  show ?thesis
    using returned written before unsized by blast
qed

section \<open>Accumulated sizes\<close>

text \<open>
  C2. The passes visit the keys by descending \<^verbatim>\<open>depth\<close>, the number of separators in the
  path. The filesystem root \<^verbatim>\<open>/\<close> and its entry \<^verbatim>\<open>/a\<close> both have depth 1, so the sort
  may leave \<^verbatim>\<open>/\<close> before \<^verbatim>\<open>/a\<close>: the root's total is then summed while \<^verbatim>\<open>/a\<close> still
  has none. The scan of \<^verbatim>\<open>/\<close> returns without error an index in which \<^verbatim>\<open>/\<close> lists the
  child \<^verbatim>\<open>/a\<close> of 10 accumulated bytes and has 0 itself.
\<close>

theorem root_directory_total_misses_subdirectory:
  "fst (Scan background slashReq (slashWorld, tinyScanner)) = Returns (\<lparr>resRootPath = ''/''\<rparr>, None)
   \<and> cache (snd (snd (Scan background slashReq (slashWorld, tinyScanner)))) = slashIndex
   \<and> map_option ChildrenIDs (map_of slashIndex ''/'') = Some [''/a'']
   \<and> map_option AccumBytes (map_of slashIndex ''/a'') = Some 10
   \<and> map_option AccumBytes (map_of slashIndex ''/'') = Some 0
   \<and> depth ''/'' = depth ''/a''"
proof -
  note run = Scan_walk_path [OF slash_load refl slash_root [symmetric] slash_not_reused
      slash_not_cached slash_walk slash_collect slash_passes]
  have returned: "fst (Scan background slashReq (slashWorld, tinyScanner))
      = Returns (\<lparr>resRootPath = ''/''\<rparr>, None)"
    unfolding run by (simp add: progressCapacity_def)
  have written: "cache (snd (snd (Scan background slashReq (slashWorld, tinyScanner)))) = slashIndex"
    unfolding run by (simp add: progressCapacity_def slash_replace)
  have idx: "map_option ChildrenIDs (map_of slashIndex ''/'') = Some [''/a'']
      \<and> map_option AccumBytes (map_of slashIndex ''/a'') = Some 10
      \<and> map_option AccumBytes (map_of slashIndex ''/'') = Some 0"
    by (simp add: slashIndex_def mkNode_def)
  show ?thesis
    using returned written idx slash_depths by simp
qed

section \<open>Progress\<close>

text \<open>
  C9. During the walk every progress message goes through \<^verbatim>\<open>progressNonBlocking\<close>, but the
  completion message at the end of a walking scan is sent with a plain \<^verbatim>\<open>progress <- msg\<close>.
  When the 64 places of the channel are taken and nobody receives, that send never
  returns: the scan blocks. The witness is a directory with 64 unreadable directories,
  each of which costs one buffered message.
\<close>

theorem final_progress_send_blocks:
  assumes loaded: "fst (loadCache world scanner0) = None"
    and walks: "walksFilesystem world scanner0 req"
    and walked: "fst (scanWalk ctx req world scanner0) = None"
    and full: "progressCapacity \<le> length (snd (snd (scanCollected ctx req world scanner0)))"
  shows "fst (Scan ctx req (world, scanner0)) = Blocks"
  using Scan_stages [OF walks Scan_no_panic [OF loaded], of ctx] walked full
  by (simp add: Let_def)

theorem final_progress_send_blocks_witness:
  "fst (loadCache lockedWorld tinyScanner) = None
   \<and> walksFilesystem lockedWorld tinyScanner showAllReq
   \<and> fst (scanWalk background showAllReq lockedWorld tinyScanner) = None
   \<and> progressCapacity \<le> length (snd (snd (scanCollected background showAllReq lockedWorld tinyScanner)))
   \<and> fst (Scan background showAllReq (lockedWorld, tinyScanner)) = Blocks"
proof -
  have loaded: "fst (loadCache lockedWorld tinyScanner) = None"
    by (simp add: locked_load)
  have full: "progressCapacity \<le> length (snd (snd (scanCollected background showAllReq lockedWorld tinyScanner)))"
    using locked_walk by (simp add: scanCollected_def Let_def worker_def background_def)
  from final_progress_send_blocks [OF loaded locked_walks _ full] locked_walk
  show ?thesis
    using loaded locked_walks full by simp
qed

section \<open>Confirmation\<close>

text \<open>
  C1. \<^verbatim>\<open>requireConfirmation\<close> returns nil as soon as the token is \<^verbatim>\<open>confirm\<close>, before it looks
  at the sources. So, for every operating system: a delete whose one source \<open>p\<close> is a
  directory is let through with the token \<^verbatim>\<open>confirm\<close>, and \<^verbatim>\<open>Execute\<close> hands the directory to
  \<^verbatim>\<open>deleteDirectory\<close>: the filesystem it returns is the one \<^verbatim>\<open>deleteDirectory\<close> leaves, the
  result is the one \<^verbatim>\<open>deleteDirectory\<close> counted, and the error is nil. The same request with a
  token that is neither \<^verbatim>\<open>confirm\<close> nor \<^verbatim>\<open>confirm-recursive\<close> is refused with
  \<^verbatim>\<open>recursive delete requires confirmation\<close> and the filesystem as it was.
\<close>

theorem confirm_token_deletes_directory:
  assumes del: "reqType req = ActionDelete"
    and src: "normalizePaths (Getwd os) (SourcePaths req) = Inr [p]"
    and valid: "validateRequest (UserHomeDir os) req [p] = None"
    and dir: "Lstat os fs p = Inr info" "IsDir info"
    and live: "\<not> ctxErr ctx 0"
    and other: "token \<noteq> ''confirm''" "token \<noteq> ''confirm-recursive''"
  shows "requireConfirmation (Lstat os fs) (req\<lparr>ConfirmToken := ''confirm''\<rparr>) [p] = None
    \<and> Execute os ctx (req\<lparr>ConfirmToken := ''confirm''\<rparr>) (fs, actions) =
        (case deleteDirectory os ctx p (emptyResult ActionDelete) (fs, []) of
           (err, result1, fs1, buf1) \<Rightarrow>
             let result =
                   (case err of
                      None \<Rightarrow> result1
                    | Some e \<Rightarrow> result1\<lparr>Errors := Errors result1 @ [errText e]\<rparr>)
                   \<lparr>Message := ''delete complete''\<rparr>
             in if length buf1 < progressCapacity then
                  (Returns (result, None), fs1,
                   actions\<lparr>actProgress := ClosedChan (buf1 @ [\<lparr>apType = ActionDelete, apCurrent = [],
                                apProcessed = SuccessCount result + FailureCount result,
                                apTotal = 0, apCompleted = True, apErrMessage = []\<rparr>])\<rparr>)
                else (Blocks, fs1, actions\<lparr>actProgress := OpenChan buf1\<rparr>))
    \<and> Execute os ctx (req\<lparr>ConfirmToken := token\<rparr>) (fs, actions) =
        (Returns (emptyResult ActionDelete,
                  Some (ErrMsg ''recursive delete requires confirmation'')), fs, actions)"
proof -
  have "validateRequest (UserHomeDir os) (req\<lparr>ConfirmToken := t\<rparr>) [p]
      = validateRequest (UserHomeDir os) req [p]" for t
    by (simp add: validateRequest_def)
  then have v: "validateRequest (UserHomeDir os) (req\<lparr>ConfirmToken := t\<rparr>) [p] = None" for t
    using valid by simp
  have a: "requireConfirmation (Lstat os fs) (req\<lparr>ConfirmToken := ''confirm''\<rparr>) [p] = None"
    by (simp add: requireConfirmation_def)
  have b: "requireConfirmation (Lstat os fs) (req\<lparr>ConfirmToken := token\<rparr>) [p]
      = Some (ErrMsg ''recursive delete requires confirmation'')"
    using del dir other by (simp add: requireConfirmation_def ActionDelete_def ActionMove_def)
  have run: "Execute os ctx (req\<lparr>ConfirmToken := ''confirm''\<rparr>) (fs, actions) =
        (case deleteDirectory os ctx p (emptyResult ActionDelete) (fs, []) of
           (err, result1, fs1, buf1) \<Rightarrow>
             let result =
                   (case err of
                      None \<Rightarrow> result1
                    | Some e \<Rightarrow> result1\<lparr>Errors := Errors result1 @ [errText e]\<rparr>)
                   \<lparr>Message := ''delete complete''\<rparr>
             in if length buf1 < progressCapacity then
                  (Returns (result, None), fs1,
                   actions\<lparr>actProgress := ClosedChan (buf1 @ [\<lparr>apType = ActionDelete, apCurrent = [],
                                apProcessed = SuccessCount result + FailureCount result,
                                apTotal = 0, apCompleted = True, apErrMessage = []\<rparr>])\<rparr>)
                else (Blocks, fs1, actions\<lparr>actProgress := OpenChan buf1\<rparr>))"
    using del src dir live
    by (auto simp: Execute_def v a deletePaths_def Let_def
        split: prod.splits option.splits)
  have refused: "Execute os ctx (req\<lparr>ConfirmToken := token\<rparr>) (fs, actions) =
        (Returns (emptyResult ActionDelete,
                  Some (ErrMsg ''recursive delete requires confirmation'')), fs, actions)"
    using del src by (simp add: Execute_def v b)
  from a run refused show ?thesis by blast
qed

theorem confirm_token_deletes_directory_witness:
  "\<forall>dd cp aa.
     reqType (deleteDirReq []) = ActionDelete
   \<and> normalizePaths (Getwd (tableOS dd cp aa)) (SourcePaths (deleteDirReq [])) = Inr [''/data/d'']
   \<and> validateRequest (UserHomeDir (tableOS dd cp aa)) (deleteDirReq []) [''/data/d''] = None
   \<and> Lstat (tableOS dd cp aa) dataFs ''/data/d'' = Inr \<lparr>IsDir = True, Size = 0\<rparr>
   \<and> IsDir \<lparr>IsDir = True, Size = 0\<rparr>
   \<and> \<not> ctxErr background 0
   \<and> ''delete it'' \<noteq> ''confirm'' \<and> ''delete it'' \<noteq> ''confirm-recursive''
   \<and> requireConfirmation (Lstat (tableOS dd cp aa) dataFs) (deleteDirReq ''confirm'') [''/data/d''] = None
   \<and> Execute (tableOS dd cp aa) background (deleteDirReq ''confirm'') (dataFs, NewFSActions) =
        (case dd background ''/data/d'' (emptyResult ActionDelete) (dataFs, []) of
           (err, result1, fs1, buf1) \<Rightarrow>
             let result =
                   (case err of
                      None \<Rightarrow> result1
                    | Some e \<Rightarrow> result1\<lparr>Errors := Errors result1 @ [errText e]\<rparr>)
                   \<lparr>Message := ''delete complete''\<rparr>
             in if length buf1 < progressCapacity then
                  (Returns (result, None), fs1,
                   NewFSActions\<lparr>actProgress := ClosedChan (buf1 @ [\<lparr>apType = ActionDelete, apCurrent = [],
                                apProcessed = SuccessCount result + FailureCount result,
                                apTotal = 0, apCompleted = True, apErrMessage = []\<rparr>])\<rparr>)
                else (Blocks, fs1, NewFSActions\<lparr>actProgress := OpenChan buf1\<rparr>))
   \<and> Execute (tableOS dd cp aa) background (deleteDirReq ''delete it'') (dataFs, NewFSActions) =
        (Returns (emptyResult ActionDelete,
                  Some (ErrMsg ''recursive delete requires confirmation'')), dataFs, NewFSActions)"
proof (intro allI)
  fix dd cp aa
  let ?os = "tableOS dd cp aa"
  have del: "reqType (deleteDirReq []) = ActionDelete"
    by (simp add: deleteDirReq_def)
  have src: "normalizePaths (Getwd ?os) (SourcePaths (deleteDirReq [])) = Inr [''/data/d'']"
    by (simp add: deleteDirReq_def tableOS_def normalizePaths_def path_defs)
  have valid: "validateRequest (UserHomeDir ?os) (deleteDirReq []) [''/data/d''] = None"
    by (simp add: deleteDirReq_def tableOS_def validateRequest_def isCriticalPath_def
        ActionDelete_def ActionMove_def ActionCopy_def ActionBackup_def path_defs)
  have dir: "Lstat ?os dataFs ''/data/d'' = Inr \<lparr>IsDir = True, Size = 0\<rparr>"
    by (simp add: tableOS_def tableStat_def dataFs_def)
  have isdir: "IsDir \<lparr>IsDir = True, Size = 0\<rparr>"
    by simp
  have live: "\<not> ctxErr background 0"
    by (simp add: ctxErr_def background_def)
  have other: "''delete it'' \<noteq> ''confirm''" "''delete it'' \<noteq> ''confirm-recursive''"
    by simp_all
  have upd: "(deleteDirReq [])\<lparr>ConfirmToken := t\<rparr> = deleteDirReq t" for t
    by (simp add: deleteDirReq_def)
  have dd: "deleteDirectory ?os = dd"
    by (simp add: tableOS_def)
  from confirm_token_deletes_directory [OF del src valid dir isdir live other, of NewFSActions]
  show "reqType (deleteDirReq []) = ActionDelete
   \<and> normalizePaths (Getwd ?os) (SourcePaths (deleteDirReq [])) = Inr [''/data/d'']
   \<and> validateRequest (UserHomeDir ?os) (deleteDirReq []) [''/data/d''] = None
   \<and> Lstat ?os dataFs ''/data/d'' = Inr \<lparr>IsDir = True, Size = 0\<rparr>
   \<and> IsDir \<lparr>IsDir = True, Size = 0\<rparr>
   \<and> \<not> ctxErr background 0
   \<and> ''delete it'' \<noteq> ''confirm'' \<and> ''delete it'' \<noteq> ''confirm-recursive''
   \<and> requireConfirmation (Lstat ?os dataFs) (deleteDirReq ''confirm'') [''/data/d''] = None
   \<and> Execute ?os background (deleteDirReq ''confirm'') (dataFs, NewFSActions) =
        (case dd background ''/data/d'' (emptyResult ActionDelete) (dataFs, []) of
           (err, result1, fs1, buf1) \<Rightarrow>
             let result =
                   (case err of
                      None \<Rightarrow> result1
                    | Some e \<Rightarrow> result1\<lparr>Errors := Errors result1 @ [errText e]\<rparr>)
                   \<lparr>Message := ''delete complete''\<rparr>
             in if length buf1 < progressCapacity then
                  (Returns (result, None), fs1,
                   NewFSActions\<lparr>actProgress := ClosedChan (buf1 @ [\<lparr>apType = ActionDelete, apCurrent = [],
                                apProcessed = SuccessCount result + FailureCount result,
                                apTotal = 0, apCompleted = True, apErrMessage = []\<rparr>])\<rparr>)
                else (Blocks, fs1, NewFSActions\<lparr>actProgress := OpenChan buf1\<rparr>))
   \<and> Execute ?os background (deleteDirReq ''delete it'') (dataFs, NewFSActions) =
        (Returns (emptyResult ActionDelete,
                  Some (ErrMsg ''recursive delete requires confirmation'')), dataFs, NewFSActions)"
    unfolding upd dd
    using del src valid dir isdir live other by blast
qed

section \<open>Backup into an existing destination\<close>

text \<open>
  C4, as amended. A backup whose destination already exists changes nothing in the
  filesystem, for every operating system: \<^verbatim>\<open>Execute\<close> returns the filesystem it was given.
  It does not return an error: the error value is nil, and the failure is told by the
  result, whose message is \<^verbatim>\<open>backup failed\<close>, whose counts are 0 and whose error list
  holds the one line \<^verbatim>\<open>backup destination exists\<close> (or \<^verbatim>\<open>backup archive exists\<close> for a
  destination ending in \<^verbatim>\<open>.tar.gz\<close>).
\<close>

theorem backup_to_existing_destination_changes_nothing:
  assumes "reqType req = ActionBackup"
    and "normalizePaths (Getwd os) (SourcePaths req) = Inr paths" and "paths \<noteq> []"
    and "Destination req \<noteq> []"
    and "Abs (Getwd os) (Destination req) = Inr dest"
    and "exists os fs dest"
  shows "Execute os ctx req (fs, actions) =
      (Returns
         (\<lparr>resType = ActionBackup, SuccessCount = 0, FailureCount = 0,
           Message = ''backup failed'',
           Errors = [if HasSuffix (Destination req) ''.tar.gz'' then ''backup archive exists''
                     else ''backup destination exists''],
           Skipped = 0\<rparr>,
          None),
       fs,
       actions\<lparr>actProgress :=
         ClosedChan [\<lparr>apType = ActionBackup, apCurrent = [], apProcessed = 0, apTotal = 0,
                      apCompleted = True, apErrMessage = []\<rparr>]\<rparr>)"
  using assms
  by (simp add: Execute_def validateRequest_def requireConfirmation_def backupPaths_def
      backupCopy_def backupCompressed_def backupFailed_def emptyResult_def progressCapacity_def
      ActionDelete_def ActionMove_def ActionCopy_def ActionBackup_def)

theorem backup_to_existing_destination_changes_nothing_witness:
  "\<forall>dd cp aa.
     reqType (backupReq ''/backup'') = ActionBackup
   \<and> normalizePaths (Getwd (tableOS dd cp aa)) (SourcePaths (backupReq ''/backup'')) = Inr [''/data/d'']
   \<and> [''/data/d''] \<noteq> []
   \<and> Destination (backupReq ''/backup'') \<noteq> []
   \<and> Abs (Getwd (tableOS dd cp aa)) (Destination (backupReq ''/backup'')) = Inr ''/backup''
   \<and> exists (tableOS dd cp aa) dataFs ''/backup''
   \<and> Execute (tableOS dd cp aa) background (backupReq ''/backup'') (dataFs, NewFSActions) =
      (Returns
         (\<lparr>resType = ActionBackup, SuccessCount = 0, FailureCount = 0,
           Message = ''backup failed'', Errors = [''backup destination exists''], Skipped = 0\<rparr>,
          None),
       dataFs,
       NewFSActions\<lparr>actProgress :=
         ClosedChan [\<lparr>apType = ActionBackup, apCurrent = [], apProcessed = 0, apTotal = 0,
                      apCompleted = True, apErrMessage = []\<rparr>]\<rparr>)"
proof (intro allI)
  fix dd cp aa
  let ?os = "tableOS dd cp aa"
  have t: "reqType (backupReq ''/backup'') = ActionBackup"
    by (simp add: backupReq_def)
  have n: "normalizePaths (Getwd ?os) (SourcePaths (backupReq ''/backup'')) = Inr [''/data/d'']"
    by (simp add: backupReq_def tableOS_def normalizePaths_def path_defs)
  have p: "[''/data/d''] \<noteq> []"
    by simp
  have d: "Destination (backupReq ''/backup'') \<noteq> []"
    by (simp add: backupReq_def)
  have a: "Abs (Getwd ?os) (Destination (backupReq ''/backup'')) = Inr ''/backup''"
    by (simp add: backupReq_def tableOS_def path_defs)
  have e: "exists ?os dataFs ''/backup''"
    by (simp add: exists_def table_defs)
  from backup_to_existing_destination_changes_nothing [OF t n p d a e, of background NewFSActions]
  show "reqType (backupReq ''/backup'') = ActionBackup
   \<and> normalizePaths (Getwd ?os) (SourcePaths (backupReq ''/backup'')) = Inr [''/data/d'']
   \<and> [''/data/d''] \<noteq> []
   \<and> Destination (backupReq ''/backup'') \<noteq> []
   \<and> Abs (Getwd ?os) (Destination (backupReq ''/backup'')) = Inr ''/backup''
   \<and> exists ?os dataFs ''/backup''
   \<and> Execute ?os background (backupReq ''/backup'') (dataFs, NewFSActions) =
      (Returns
         (\<lparr>resType = ActionBackup, SuccessCount = 0, FailureCount = 0,
           Message = ''backup failed'', Errors = [''backup destination exists''], Skipped = 0\<rparr>,
          None),
       dataFs,
       NewFSActions\<lparr>actProgress :=
         ClosedChan [\<lparr>apType = ActionBackup, apCurrent = [], apProcessed = 0, apTotal = 0,
                      apCompleted = True, apErrMessage = []\<rparr>]\<rparr>)"
    using t n p d a e by (simp add: backupReq_def HasSuffix_def)
qed

text \<open>
  The archive \<^verbatim>\<open>/backup.tar.gz\<close> exists; \<^verbatim>\<open>Execute\<close> returns a result and the error nil,
  whatever the helpers do.
\<close>

theorem backup_to_existing_destination_counterexample:
  "\<forall>dd cp aa.
     exists (tableOS dd cp aa) dataFs ''/backup.tar.gz''
   \<and> fst (Execute (tableOS dd cp aa) background (backupReq ''/backup.tar.gz'') (dataFs, NewFSActions)) =
      Returns
        (\<lparr>resType = ActionBackup, SuccessCount = 0, FailureCount = 0,
          Message = ''backup failed'', Errors = [''backup archive exists''], Skipped = 0\<rparr>,
         None)"
  by (simp add: action_defs table_defs path_defs progressCapacity_def)

section \<open>Scanning twice\<close>

text \<open>
  C7. A directory spliced from the cache already lists its children, and
  \<^verbatim>\<open>applyHierarchy\<close> appends every node to its parent once more. Two scans of the same
  unchanged tree, each by a new scanner that loads the cache file the run before it left,
  both splice \<^verbatim>\<open>/root/a\<close>: the first gives it 20 accumulated bytes for its one 10-byte
  file, which it now lists twice, and saves that; the second gives it 30.
\<close>

theorem spliced_rescan_changes_aggregates:
  "fst (Scan background tinyReq (spliceWorld, tinyScanner)) = Returns (\<lparr>resRootPath = ''/root''\<rparr>, None)
   \<and> cache (snd (snd (Scan background tinyReq (spliceWorld, tinyScanner)))) = spliceIndex
   \<and> lstatTree (fst (snd (Scan background tinyReq (spliceWorld, tinyScanner)))) = lstatTree spliceWorld
   \<and> statModTime (fst (snd (Scan background tinyReq (spliceWorld, tinyScanner)))) = statModTime spliceWorld
   \<and> fst (Scan background tinyReq (fst (snd (Scan background tinyReq (spliceWorld, tinyScanner))), tinyScanner))
       = Returns (\<lparr>resRootPath = ''/root''\<rparr>, None)
   \<and> cache (snd (snd (Scan background tinyReq
         (fst (snd (Scan background tinyReq (spliceWorld, tinyScanner))), tinyScanner)))) = spliceIndex2
   \<and> map_option AccumBytes (map_of spliceIndex ''/root/a'') = Some 20
   \<and> map_option AccumBytes (map_of spliceIndex2 ''/root/a'') = Some 30
   \<and> map_option ChildrenIDs (map_of spliceIndex ''/root/a'') = Some [''/root/a/f1'', ''/root/a/f1'']
   \<and> map_option SizeBytes (map_of spliceIndex ''/root/a/f1'') = Some 10"
proof -
  have w: "fst (snd (Scan background tinyReq (spliceWorld, tinyScanner))) = spliceWorld2"
    using splice_scan by simp
  have same: "lstatTree spliceWorld2 = lstatTree spliceWorld"
      "statModTime spliceWorld2 = statModTime spliceWorld"
    by (simp_all add: spliceWorld2_def)
  have idx: "map_option AccumBytes (map_of spliceIndex ''/root/a'') = Some 20
      \<and> map_option AccumBytes (map_of spliceIndex2 ''/root/a'') = Some 30
      \<and> map_option ChildrenIDs (map_of spliceIndex ''/root/a'') = Some [''/root/a/f1'', ''/root/a/f1'']
      \<and> map_option SizeBytes (map_of spliceIndex ''/root/a/f1'') = Some 10"
    by (simp add: spliceIndex_def spliceIndex2_def mkCached_def mkNode_def)
  show ?thesis
    unfolding w using splice_scan splice2_scan same idx by simp
qed

section \<open>A stat that fails\<close>



end
